theory Spec2Isabelle
  imports Complex_Main
begin

section \<open>Numbers and constants\<close>

text \<open>
  The program is \<^verbatim>\<open>src/index.ts\<close>, a grid ray caster. It is modelled at two levels.
  The first takes a \<^verbatim>\<open>number\<close> for a real number, as the data model of the
  specification has it (a vector is a real-valued pair): \<^verbatim>\<open>Math.floor\<close> and \<^verbatim>\<open>Math.ceil\<close>
  are \<open>\<lfloor>_\<rfloor>\<close> and \<open>\<lceil>_\<rceil>\<close>, \<^verbatim>\<open>Math.sign\<close> is \<open>sgn\<close>, \<^verbatim>\<open>Math.sqrt\<close> is \<open>sqrt\<close>. The
  divisions the theorems of this level reason about have a divisor that the source
  tests, or that is proved to differ from zero. The second level, in the sections on
  binary64 below, takes a \<^verbatim>\<open>number\<close> for what it is, a binary64 value with rounding,
  infinities and NaN; the properties that depend on rounding are stated there.
\<close>

definition EPS :: real where
  "EPS = 1 / 10 ^ 7"

definition NEAR_CLIPPING_PLANE :: real where
  "NEAR_CLIPPING_PLANE = EPS"

definition FAR_CLIPPING_PLANE :: real where
  "FAR_CLIPPING_PLANE = 10"

definition FOV :: real where
  "FOV = pi / 2"

definition SCREEN_WIDTH :: nat where
  "SCREEN_WIDTH = 800"

definition PLAYER_SPEED :: real where
  "PLAYER_SPEED = 5 / 2"

text \<open>\<^verbatim>\<open>Number.MIN_VALUE\<close>, the smallest positive binary64 number.\<close>

definition MIN_VALUE :: real where
  "MIN_VALUE = 1 / 2 ^ 1074"

section \<open>Vector2\<close>

text \<open>
  \<^verbatim>\<open>class Vector2 { x: number; y: number }\<close>. The constructor \<open>Vector2 a b\<close> is
  \<^verbatim>\<open>new Vector2(a, b)\<close>; the fields are read with \<open>vx\<close> and \<open>vy\<close>. A method
  \<^verbatim>\<open>this.m(args)\<close> is the function \<open>m this args\<close>.
\<close>

datatype Vector2 = Vector2 (vx: real) (vy: real)

definition zero :: Vector2 where
  "zero = Vector2 0 0"

definition fromAngle :: "real \<Rightarrow> Vector2" where
  "fromAngle angle = Vector2 (cos angle) (sin angle)"

definition add :: "Vector2 \<Rightarrow> Vector2 \<Rightarrow> Vector2" where
  "add this that = Vector2 (vx this + vx that) (vy this + vy that)"

definition sub :: "Vector2 \<Rightarrow> Vector2 \<Rightarrow> Vector2" where
  "sub this that = Vector2 (vx this - vx that) (vy this - vy that)"

definition sqrLength :: "Vector2 \<Rightarrow> real" where
  "sqrLength this = vx this * vx this + vy this * vy this"

definition length_vec :: "Vector2 \<Rightarrow> real" where
  "length_vec this = sqrt (sqrLength this)"

definition norm_vec :: "Vector2 \<Rightarrow> Vector2" where
  "norm_vec this =
     (let len = length_vec this
      in if len = 0 then zero else Vector2 (vx this / len) (vy this / len))"

definition scale :: "Vector2 \<Rightarrow> real \<Rightarrow> Vector2" where
  "scale this v = Vector2 (vx this * v) (vy this * v)"

definition rot90 :: "Vector2 \<Rightarrow> Vector2" where
  "rot90 this = Vector2 (- vy this) (vx this)"

definition distanceTo :: "Vector2 \<Rightarrow> Vector2 \<Rightarrow> real" where
  "distanceTo this that = length_vec (sub that this)"

definition sqrDistanceTo :: "Vector2 \<Rightarrow> Vector2 \<Rightarrow> real" where
  "sqrDistanceTo this that = sqrLength (sub that this)"

definition lerp :: "Vector2 \<Rightarrow> Vector2 \<Rightarrow> real \<Rightarrow> Vector2" where
  "lerp this that alpha = add (scale (sub that this) alpha) this"

definition dot :: "Vector2 \<Rightarrow> Vector2 \<Rightarrow> real" where
  "dot this that = vx this * vx that + vy this * vy that"

section \<open>Player\<close>

record Player =
  position :: Vector2
  direction :: real

definition fovRange :: "Player \<Rightarrow> Vector2 \<times> Vector2" where
  "fovRange this =
     (let len = tan (FOV * (1 / 2)) * NEAR_CLIPPING_PLANE;
          p = add (position this) (scale (fromAngle (direction this)) NEAR_CLIPPING_PLANE);
          p1 = sub p (scale (norm_vec (rot90 (sub p (position this)))) len);
          p2 = add p (scale (norm_vec (rot90 (sub p (position this)))) len)
      in (p1, p2))"

section \<open>Colors, cells and the scene\<close>

datatype Color = Color real real real real

fun brightness :: "Color \<Rightarrow> real \<Rightarrow> Color" where
  "brightness (Color r g b a) factor = Color (factor * r) (factor * g) (factor * b) a"

text \<open>
  \<^verbatim>\<open>type Scene = Array<Array<Color | HTMLImageElement | null>>\<close>. A cell is \<^verbatim>\<open>null\<close>
  (\<open>Empty\<close>), a color, or an image, of which only the size matters here.
\<close>

record Image =
  width :: real
  height :: real

datatype Cell = Empty | Flat Color | Texture Image

type_synonym Scene = "Cell list list"

text \<open>
  Reading an array at a number: the element when the number is an index of the array,
  \<^verbatim>\<open>undefined\<close> (\<open>None\<close>) otherwise.
\<close>

definition at_index :: "'a list \<Rightarrow> real \<Rightarrow> 'a option" where
  "at_index xs i =
     (if i = of_int \<lfloor>i\<rfloor> \<and> 0 \<le> i \<and> i < real (length xs) then Some (xs ! nat \<lfloor>i\<rfloor>) else None)"

text \<open>
  \<^verbatim>\<open>scene[c.y][c.x]\<close>: reading a property of the \<^verbatim>\<open>undefined\<close> row throws a TypeError;
  a column beyond the row reads \<^verbatim>\<open>undefined\<close>, here \<open>Inr None\<close>.
\<close>

datatype error = TypeError

definition cellAt :: "Scene \<Rightarrow> Vector2 \<Rightarrow> error + Cell option" where
  "cellAt scene c =
     (case at_index scene (vy c) of
        None \<Rightarrow> Inl TypeError
      | Some row \<Rightarrow> Inr (at_index row (vx c)))"

definition sceneSize :: "Scene \<Rightarrow> Vector2" where
  "sceneSize scene =
     (let y = real (length scene);
          x = fold (\<lambda>row x. max x (real (length row))) scene MIN_VALUE
      in Vector2 x y)"

definition insideScene :: "Scene \<Rightarrow> Vector2 \<Rightarrow> bool" where
  "insideScene scene p =
     (let size = sceneSize scene
      in vx p \<ge> 0 \<and> vx p < vx size \<and> vy p \<ge> 0 \<and> vy p < vy size)"

section \<open>The ray stepper\<close>

definition snap :: "real \<Rightarrow> real \<Rightarrow> real" where
  "snap x dx =
     (if dx > 0 then of_int \<lceil>x + EPS\<rceil>
      else if dx < 0 then of_int \<lfloor>x - EPS\<rfloor>
      else x)"

definition hittingCell :: "Vector2 \<Rightarrow> Vector2 \<Rightarrow> Vector2" where
  "hittingCell p1 p2 =
     (let d = sub p2 p1
      in Vector2 (of_int \<lfloor>vx p2 + sgn (vx d) * EPS\<rfloor>) (of_int \<lfloor>vy p2 + sgn (vy d) * EPS\<rfloor>))"

definition rayStep :: "Vector2 \<Rightarrow> Vector2 \<Rightarrow> Vector2" where
  "rayStep p1 p2 =
     (let d = sub p2 p1 in
      if vx d \<noteq> 0 then
        (let k = vy d / vx d;
             c = vy p1 - k * vx p1;
             x3 = snap (vx p2) (vx d);
             y3 = k * x3 + c;
             p3 = Vector2 x3 y3
         in if k \<noteq> 0 then
              (let y3 = snap (vy p2) (vy d);
                   x3 = (y3 - c) / k;
                   p3t = Vector2 x3 y3
               in if sqrDistanceTo p2 p3 > sqrDistanceTo p2 p3t then p3t else p3)
            else p3)
      else
        (let y3 = snap (vy p2) (vy d);
             x3 = vx p2
         in Vector2 x3 y3))"

section \<open>The ray caster\<close>

text \<open>
  The loop of \<^verbatim>\<open>castRay\<close>, with \<open>start\<close> the first \<open>p1\<close>. It need not end, so its result
  is an option: \<open>None\<close> is a loop that runs forever. A result is the TypeError of the
  cell lookup or the point returned.
\<close>

partial_function (option) castRay_loop ::
  "Scene \<Rightarrow> Vector2 \<Rightarrow> Vector2 \<Rightarrow> Vector2 \<Rightarrow> (error + Vector2) option" where
  "castRay_loop scene start p1 p2 =
     (if sqrDistanceTo start p1 < FAR_CLIPPING_PLANE ^ 2 then
        (let c = hittingCell p1 p2 in
         if insideScene scene c then
           (case cellAt scene c of
              Inl e \<Rightarrow> Some (Inl e)
            | Inr cell \<Rightarrow>
                if cell \<noteq> Some Empty then Some (Inr p2)
                else castRay_loop scene start p2 (rayStep p1 p2))
         else castRay_loop scene start p2 (rayStep p1 p2))
      else Some (Inr p2))"

definition castRay :: "Scene \<Rightarrow> Vector2 \<Rightarrow> Vector2 \<Rightarrow> (error + Vector2) option" where
  "castRay scene p1 p2 = castRay_loop scene p1 p1 p2"


subsection \<open>Notions used to state properties of the stepper and the caster\<close>

text \<open>
  The two candidates of \<^verbatim>\<open>rayStep\<close> when the ray is neither vertical nor horizontal:
  the crossing of the next vertical grid line (\<^verbatim>\<open>p3\<close> in the source) and of the next
  horizontal grid line (\<^verbatim>\<open>p3t\<close>).
\<close>

definition vertical_candidate :: "Vector2 \<Rightarrow> Vector2 \<Rightarrow> Vector2" where
  "vertical_candidate p1 p2 =
     (let d = sub p2 p1;
          k = vy d / vx d;
          c = vy p1 - k * vx p1;
          x3 = snap (vx p2) (vx d);
          y3 = k * x3 + c
      in Vector2 x3 y3)"

definition horizontal_candidate :: "Vector2 \<Rightarrow> Vector2 \<Rightarrow> Vector2" where
  "horizontal_candidate p1 p2 =
     (let d = sub p2 p1;
          k = vy d / vx d;
          c = vy p1 - k * vx p1;
          y3 = snap (vy p2) (vy d);
          x3 = (y3 - c) / k
      in Vector2 x3 y3)"

text \<open>
  The pair \<open>(p1, p2)\<close> the loop of \<^verbatim>\<open>castRay\<close> holds after \<open>n\<close> steps, and the test that
  ends the loop at a pair: the previous tip has reached the far clipping distance
  from the origin, or the cell of the tip is inside the scene and not \<^verbatim>\<open>null\<close>.
\<close>

definition ray_pair :: "nat \<Rightarrow> Vector2 \<times> Vector2 \<Rightarrow> Vector2 \<times> Vector2" where
  "ray_pair n = (\<lambda>(p1, p2). (p2, rayStep p1 p2)) ^^ n"

definition castRay_stops :: "Scene \<Rightarrow> Vector2 \<Rightarrow> Vector2 \<times> Vector2 \<Rightarrow> bool" where
  "castRay_stops scene start pp =
     (\<not> sqrDistanceTo start (fst pp) < FAR_CLIPPING_PLANE ^ 2 \<or>
      (insideScene scene (hittingCell (fst pp) (snd pp)) \<and>
       cellAt scene (hittingCell (fst pp) (snd pp)) \<noteq> Inr (Some Empty)))"

text \<open>
  The smallest distance a step of \<^verbatim>\<open>rayStep\<close> can move the tip: a snapped coordinate
  moves by \<open>EPS\<close> at least (\<open>snap_moves_EPS\<close>, \<open>rayStep_moves_EPS\<close>), and by exactly
  \<open>EPS\<close> from a tip \<open>EPS\<close> before a grid line.
\<close>

definition minStepSize :: real where
  "minStepSize = EPS"



section \<open>The wall renderer\<close>

text \<open>
  The canvas is its size; a drawing call is recorded as a value. \<^verbatim>\<open>fillRect\<close> carries
  its fill color (the cell's color after \<^verbatim>\<open>brightness\<close>; the formatting of
  \<^verbatim>\<open>toStyle\<close> is left out) and the rectangle \<open>x y w h\<close>; \<^verbatim>\<open>drawImage\<close> its nine
  arguments.
\<close>

record Canvas =
  canvas_width :: real
  canvas_height :: real

datatype Draw =
    FillRect Color real real real real
  | DrawImage Image real real real real real real real real

fun strip_top :: "Draw \<Rightarrow> real" where
  "strip_top (FillRect c x y w h) = y"
| "strip_top (DrawImage img sx sy sw sh dx dy dw dh) = dy"

fun strip_height :: "Draw \<Rightarrow> real" where
  "strip_height (FillRect c x y w h) = h"
| "strip_height (DrawImage img sx sy sw sh dx dy dw dh) = dh"

text \<open>
  The body of the loop of \<^verbatim>\<open>renderScene\<close> for the column \<open>x\<close>, from the point \<open>p\<close> that
  \<^verbatim>\<open>castRay\<close> returned: the call it makes, if any.
\<close>

definition renderStrip :: "Canvas \<Rightarrow> Player \<Rightarrow> Scene \<Rightarrow> nat \<Rightarrow> Vector2 \<Rightarrow> error + Draw option" where
  "renderStrip canvas player scene x p =
     (let stripWidth = of_int \<lceil>canvas_width canvas / real SCREEN_WIDTH\<rceil>;
          c = hittingCell (position player) p
      in if insideScene scene c then
           (case cellAt scene c of
              Inl e \<Rightarrow> Inl e
            | Inr cell \<Rightarrow>
                (let v = sub p (position player);
                     d = fromAngle (direction player);
                     stripHeight = canvas_height canvas / dot v d
                 in case cell of
                      Some (Flat color) \<Rightarrow>
                        Inr (Some (FillRect (brightness color (1 / dot v d))
                          (real x * stripWidth) ((canvas_height canvas - stripHeight) / 2)
                          (stripWidth + 1) stripHeight))
                    | Some (Texture img) \<Rightarrow>
                        (let t = sub p c;
                             u = (if (\<bar>vx t\<bar> < EPS \<or> \<bar>vx t - 1\<bar> < EPS) \<and> vy t > 0
                                  then vy t else vx t);
                             txStep = width img / real SCREEN_WIDTH;
                             topTx = (canvas_height canvas - stripHeight) / 2
                         in Inr (Some (DrawImage img (u * width img) 0 txStep (height img)
                              (real x * stripWidth) topTx stripWidth stripHeight)))
                    | _ \<Rightarrow> Inr None))
         else Inr None)"

definition renderColumn :: "Canvas \<Rightarrow> Player \<Rightarrow> Scene \<Rightarrow> nat \<Rightarrow> (error + Draw option) option" where
  "renderColumn canvas player scene x =
     (let (r1, r2) = fovRange player
      in case castRay scene (position player) (lerp r1 r2 (real x / real SCREEN_WIDTH)) of
           None \<Rightarrow> None
         | Some (Inl e) \<Rightarrow> Some (Inl e)
         | Some (Inr p) \<Rightarrow> Some (renderStrip canvas player scene x p))"

definition renderScene :: "Canvas \<Rightarrow> Player \<Rightarrow> Scene \<Rightarrow> (error + Draw option) option list" where
  "renderScene canvas player scene = map (renderColumn canvas player scene) [0..<SCREEN_WIDTH]"

section \<open>The movement integrator\<close>

text \<open>
  The state the callback \<^verbatim>\<open>frame\<close> closes over: the player, the six input flags and
  the previous timestamp. The scene is never assigned. The calls that draw and that
  schedule the next frame are left out.
\<close>

record Game =
  player :: Player
  movingForward :: bool
  movingBackward :: bool
  movingLeft :: bool
  movingRight :: bool
  turningLeft :: bool
  turningRight :: bool
  prevTimestamp :: real

definition deltaTime :: "Game \<Rightarrow> real \<Rightarrow> real" where
  "deltaTime g timestamp = (timestamp - prevTimestamp g) / 1000"

definition velocity :: "Game \<Rightarrow> Vector2" where
  "velocity g =
     (let dir = direction (player g);
          v = zero;
          v = (if movingForward g then add v (scale (fromAngle dir) PLAYER_SPEED) else v);
          v = (if movingBackward g then sub v (scale (fromAngle dir) PLAYER_SPEED) else v);
          v = (if movingLeft g then sub v (rot90 (scale (fromAngle dir) PLAYER_SPEED)) else v);
          v = (if movingRight g then add v (rot90 (scale (fromAngle dir) PLAYER_SPEED)) else v)
      in v)"

definition angularVelocity :: "Game \<Rightarrow> real" where
  "angularVelocity g =
     (let a = 0;
          a = (if turningLeft g then a - pi * (1 / 2) else a);
          a = (if turningRight g then a + pi * (1 / 2) else a)
      in a)"

definition towards :: "Game \<Rightarrow> real \<Rightarrow> Vector2" where
  "towards g timestamp = add (position (player g)) (scale (velocity g) (deltaTime g timestamp))"

definition floorCell :: "Vector2 \<Rightarrow> Vector2" where
  "floorCell p = Vector2 (of_int \<lfloor>vx p\<rfloor>) (of_int \<lfloor>vy p\<rfloor>)"

definition frame :: "Scene \<Rightarrow> Game \<Rightarrow> real \<Rightarrow> error + Game" where
  "frame scene g timestamp =
     (let dt = deltaTime g timestamp;
          g1 = g\<lparr>prevTimestamp := timestamp\<rparr>;
          v = velocity g;
          a = angularVelocity g;
          g2 = g1\<lparr>player := (player g1)\<lparr>direction := direction (player g1) + a * dt\<rparr>\<rparr>;
          t = add (position (player g2)) (scale v dt);
          cell = floorCell t;
          moved = g2\<lparr>player := (player g2)\<lparr>position := t\<rparr>\<rparr>
      in if \<not> insideScene scene t then Inr moved
         else case cellAt scene cell of
                Inl e \<Rightarrow> Inl e
              | Inr c \<Rightarrow> if c = Some Empty then Inr moved else Inr g2)"

section \<open>Binary64 numbers\<close>

text \<open>
  The \<^verbatim>\<open>number\<close>s of the program are binary64 values. Where a property depends on
  rounding, overflow or NaN, the functions are modelled a second time over the type
  \<open>f64\<close>: a finite value (a real number; the two zeros are one value), an infinity or
  NaN. The sign of a zero shows only in a division by zero, and the functions modelled
  over \<open>f64\<close> test their divisors against zero before they divide.

  \<open>fl\<close> rounds a real number to the nearest binary64 value, ties to the even
  significand, with gradual underflow and with overflow to an infinity: \<open>expo x\<close> is
  the binary exponent of \<open>x\<close>, \<open>quantum x\<close> the spacing of the binary64 values at \<open>x\<close>
  (53 significant bits, least exponent \<open>-1022\<close>), \<open>round_even\<close> the nearest integer.
  \<open>is_double x\<close> says that the real number \<open>x\<close> is a binary64 value.
\<close>

datatype f64 = Fin real | PInf | NInf | NaN

function expo :: "real \<Rightarrow> int" where
  "expo x = (if x = 0 then - 1022
             else if 2 \<le> \<bar>x\<bar> then expo (x / 2) + 1
             else if \<bar>x\<bar> < 1 then expo (x * 2) - 1
             else 0)"
  by pat_completeness auto
termination
proof (relation "measure (\<lambda>x. nat \<bar>\<lfloor>log 2 \<bar>x\<bar>\<rfloor>\<bar>)")
  show "wf (measure (\<lambda>x. nat \<bar>\<lfloor>log 2 \<bar>x\<bar>\<rfloor>\<bar>))" by simp
next
  fix x :: real
  assume a: "x \<noteq> 0" "2 \<le> \<bar>x\<bar>"
  define n where "n = \<lfloor>log 2 \<bar>x\<bar>\<rfloor>"
  have "1 \<le> log 2 \<bar>x\<bar>" using a(2) by (simp add: le_log_iff)
  then have n: "1 \<le> n" unfolding n_def by (simp add: le_floor_iff)
  have "log 2 \<bar>x / 2\<bar> = log 2 \<bar>x\<bar> - 1" using a by (simp add: log_divide)
  then have "\<lfloor>log 2 \<bar>x / 2\<bar>\<rfloor> = n - 1" unfolding n_def by (simp only: floor_diff_one)
  then have "nat \<bar>\<lfloor>log 2 \<bar>x / 2\<bar>\<rfloor>\<bar> < nat \<bar>n\<bar>" using n by linarith
  then show "(x / 2, x) \<in> measure (\<lambda>x. nat \<bar>\<lfloor>log 2 \<bar>x\<bar>\<rfloor>\<bar>)"
    unfolding n_def by (simp only: in_measure)
next
  fix x :: real
  assume a: "x \<noteq> 0" "\<not> 2 \<le> \<bar>x\<bar>" "\<bar>x\<bar> < 1"
  define n where "n = \<lfloor>log 2 \<bar>x\<bar>\<rfloor>"
  have "log 2 \<bar>x\<bar> < 0" using a by simp
  then have n: "n < 0" unfolding n_def by (simp add: floor_less_iff)
  have "log 2 \<bar>x * 2\<bar> = log 2 \<bar>x\<bar> + 1" using a by (simp add: log_mult abs_mult)
  then have "\<lfloor>log 2 \<bar>x * 2\<bar>\<rfloor> = n + 1" unfolding n_def by (simp only: one_add_floor)
  then have "nat \<bar>\<lfloor>log 2 \<bar>x * 2\<bar>\<rfloor>\<bar> < nat \<bar>n\<bar>" using n by linarith
  then show "(x * 2, x) \<in> measure (\<lambda>x. nat \<bar>\<lfloor>log 2 \<bar>x\<bar>\<rfloor>\<bar>)"
    unfolding n_def by (simp only: in_measure)
qed

declare expo.simps [simp del]

definition quantum :: "real \<Rightarrow> real" where
  "quantum x = 2 powi (max (expo x) (- 1022) - 52)"

definition round_even :: "real \<Rightarrow> int" where
  "round_even y =
     (let f = \<lfloor>y\<rfloor>; r = y - of_int f
      in if r < 1 / 2 then f else if 1 / 2 < r then f + 1 else if even f then f else f + 1)"

definition fl :: "real \<Rightarrow> f64" where
  "fl x =
     (let q = quantum x; r = of_int (round_even (x / q)) * q
      in if 2 ^ 1024 \<le> r then PInf else if r \<le> - (2 ^ 1024) then NInf else Fin r)"

definition is_double :: "real \<Rightarrow> bool" where
  "is_double x \<longleftrightarrow> fl x = Fin x"

text \<open>
  The operators of ECMAScript on binary64 values: the exact result, rounded once.
  \<open>fsign\<close>, \<open>fceil\<close> and \<open>ffloor\<close> are \<^verbatim>\<open>Math.sign\<close>, \<^verbatim>\<open>Math.ceil\<close> and \<^verbatim>\<open>Math.floor\<close>;
  \<open>flt\<close>, \<open>fgt\<close>, \<open>fge\<close> and \<open>feq\<close> are \<^verbatim>\<open>a < b\<close>, \<^verbatim>\<open>a > b\<close>, \<^verbatim>\<open>a >= b\<close> and \<^verbatim>\<open>a == b\<close>, false at NaN.
\<close>

fun fneg :: "f64 \<Rightarrow> f64" where
  "fneg (Fin x) = Fin (- x)"
| "fneg PInf = NInf"
| "fneg NInf = PInf"
| "fneg NaN = NaN"

fun fadd :: "f64 \<Rightarrow> f64 \<Rightarrow> f64" where
  "fadd (Fin x) (Fin y) = fl (x + y)"
| "fadd NaN b = NaN"
| "fadd a NaN = NaN"
| "fadd PInf NInf = NaN"
| "fadd NInf PInf = NaN"
| "fadd PInf PInf = PInf"
| "fadd NInf NInf = NInf"
| "fadd PInf (Fin y) = PInf"
| "fadd (Fin x) PInf = PInf"
| "fadd NInf (Fin y) = NInf"
| "fadd (Fin x) NInf = NInf"

definition fsub :: "f64 \<Rightarrow> f64 \<Rightarrow> f64" where
  "fsub a b = fadd a (fneg b)"

fun fmul :: "f64 \<Rightarrow> f64 \<Rightarrow> f64" where
  "fmul (Fin x) (Fin y) = fl (x * y)"
| "fmul NaN b = NaN"
| "fmul a NaN = NaN"
| "fmul (Fin x) PInf = (if x = 0 then NaN else if x < 0 then NInf else PInf)"
| "fmul (Fin x) NInf = (if x = 0 then NaN else if x < 0 then PInf else NInf)"
| "fmul PInf (Fin y) = (if y = 0 then NaN else if y < 0 then NInf else PInf)"
| "fmul NInf (Fin y) = (if y = 0 then NaN else if y < 0 then PInf else NInf)"
| "fmul PInf PInf = PInf"
| "fmul PInf NInf = NInf"
| "fmul NInf PInf = NInf"
| "fmul NInf NInf = PInf"

fun fdiv :: "f64 \<Rightarrow> f64 \<Rightarrow> f64" where
  "fdiv (Fin x) (Fin y) =
     (if y = 0 then (if x = 0 then NaN else if 0 < x then PInf else NInf) else fl (x / y))"
| "fdiv NaN b = NaN"
| "fdiv a NaN = NaN"
| "fdiv (Fin x) PInf = Fin 0"
| "fdiv (Fin x) NInf = Fin 0"
| "fdiv PInf (Fin y) = (if y < 0 then NInf else PInf)"
| "fdiv NInf (Fin y) = (if y < 0 then PInf else NInf)"
| "fdiv PInf PInf = NaN"
| "fdiv PInf NInf = NaN"
| "fdiv NInf PInf = NaN"
| "fdiv NInf NInf = NaN"

fun fsqrt :: "f64 \<Rightarrow> f64" where
  "fsqrt (Fin x) = (if x < 0 then NaN else fl (sqrt x))"
| "fsqrt PInf = PInf"
| "fsqrt NInf = NaN"
| "fsqrt NaN = NaN"

fun fceil :: "f64 \<Rightarrow> f64" where
  "fceil (Fin x) = Fin (of_int \<lceil>x\<rceil>)"
| "fceil PInf = PInf"
| "fceil NInf = NInf"
| "fceil NaN = NaN"

fun ffloor :: "f64 \<Rightarrow> f64" where
  "ffloor (Fin x) = Fin (of_int \<lfloor>x\<rfloor>)"
| "ffloor PInf = PInf"
| "ffloor NInf = NInf"
| "ffloor NaN = NaN"

fun flt :: "f64 \<Rightarrow> f64 \<Rightarrow> bool" where
  "flt (Fin x) (Fin y) = (x < y)"
| "flt NaN b = False"
| "flt a NaN = False"
| "flt (Fin x) PInf = True"
| "flt (Fin x) NInf = False"
| "flt PInf b = False"
| "flt NInf (Fin y) = True"
| "flt NInf PInf = True"
| "flt NInf NInf = False"

definition fgt :: "f64 \<Rightarrow> f64 \<Rightarrow> bool" where
  "fgt a b = flt b a"

definition feq :: "f64 \<Rightarrow> f64 \<Rightarrow> bool" where
  "feq a b = (a \<noteq> NaN \<and> a = b)"

definition fge :: "f64 \<Rightarrow> f64 \<Rightarrow> bool" where
  "fge a b = (fgt a b \<or> feq a b)"

fun fsign :: "f64 \<Rightarrow> f64" where
  "fsign (Fin x) = Fin (sgn x)"
| "fsign PInf = Fin 1"
| "fsign NInf = Fin (- 1)"
| "fsign NaN = NaN"

section \<open>The vector operations, the stepper and the caster over binary64\<close>

text \<open>
  \<open>EPS64\<close> is the binary64 value of the literal \<^verbatim>\<open>1e-7\<close>. The functions below are the
  methods of \<^verbatim>\<open>Vector2\<close> and the functions \<^verbatim>\<open>snap\<close>, \<^verbatim>\<open>hittingCell\<close>, \<^verbatim>\<open>rayStep\<close>,
  \<^verbatim>\<open>insideScene\<close> and \<^verbatim>\<open>castRay\<close> of the source once more, operator for operator, over
  \<open>f64\<close>; each has the name of its model over the reals with the suffix \<open>64\<close>.
  \<^verbatim>\<open>d.x !== 0\<close> is \<open>\<not> feq (fx d) (Fin 0)\<close>, true at NaN.
\<close>

definition EPS64 :: f64 where
  "EPS64 = Fin (944473296573929 / 2 ^ 73)"

datatype Vec64 = Vec64 (fx: f64) (fy: f64)

definition zero64 :: Vec64 where
  "zero64 = Vec64 (Fin 0) (Fin 0)"

definition add64 :: "Vec64 \<Rightarrow> Vec64 \<Rightarrow> Vec64" where
  "add64 this that = Vec64 (fadd (fx this) (fx that)) (fadd (fy this) (fy that))"

definition sub64 :: "Vec64 \<Rightarrow> Vec64 \<Rightarrow> Vec64" where
  "sub64 this that = Vec64 (fsub (fx this) (fx that)) (fsub (fy this) (fy that))"

definition scale64 :: "Vec64 \<Rightarrow> f64 \<Rightarrow> Vec64" where
  "scale64 this v = Vec64 (fmul (fx this) v) (fmul (fy this) v)"

definition sqrLength64 :: "Vec64 \<Rightarrow> f64" where
  "sqrLength64 this = fadd (fmul (fx this) (fx this)) (fmul (fy this) (fy this))"

definition length64 :: "Vec64 \<Rightarrow> f64" where
  "length64 this = fsqrt (sqrLength64 this)"

definition norm64 :: "Vec64 \<Rightarrow> Vec64" where
  "norm64 this =
     (let len = length64 this
      in if feq len (Fin 0) then zero64 else Vec64 (fdiv (fx this) len) (fdiv (fy this) len))"

definition sqrDistanceTo64 :: "Vec64 \<Rightarrow> Vec64 \<Rightarrow> f64" where
  "sqrDistanceTo64 this that = sqrLength64 (sub64 that this)"

definition lerp64 :: "Vec64 \<Rightarrow> Vec64 \<Rightarrow> f64 \<Rightarrow> Vec64" where
  "lerp64 this that alpha = add64 (scale64 (sub64 that this) alpha) this"

definition snap64 :: "f64 \<Rightarrow> f64 \<Rightarrow> f64" where
  "snap64 x dx =
     (if fgt dx (Fin 0) then fceil (fadd x EPS64)
      else if flt dx (Fin 0) then ffloor (fsub x EPS64)
      else x)"

definition vertical_candidate64 :: "Vec64 \<Rightarrow> Vec64 \<Rightarrow> Vec64" where
  "vertical_candidate64 p1 p2 =
     (let d = sub64 p2 p1;
          k = fdiv (fy d) (fx d);
          c = fsub (fy p1) (fmul k (fx p1));
          x3 = snap64 (fx p2) (fx d);
          y3 = fadd (fmul k x3) c
      in Vec64 x3 y3)"

definition horizontal_candidate64 :: "Vec64 \<Rightarrow> Vec64 \<Rightarrow> Vec64" where
  "horizontal_candidate64 p1 p2 =
     (let d = sub64 p2 p1;
          k = fdiv (fy d) (fx d);
          c = fsub (fy p1) (fmul k (fx p1));
          y3 = snap64 (fy p2) (fy d);
          x3 = fdiv (fsub y3 c) k
      in Vec64 x3 y3)"

definition rayStep64 :: "Vec64 \<Rightarrow> Vec64 \<Rightarrow> Vec64" where
  "rayStep64 p1 p2 =
     (let d = sub64 p2 p1 in
      if \<not> feq (fx d) (Fin 0) then
        (let k = fdiv (fy d) (fx d);
             c = fsub (fy p1) (fmul k (fx p1));
             x3 = snap64 (fx p2) (fx d);
             y3 = fadd (fmul k x3) c;
             p3 = Vec64 x3 y3
         in if \<not> feq k (Fin 0) then
              (let y3 = snap64 (fy p2) (fy d);
                   x3 = fdiv (fsub y3 c) k;
                   p3t = Vec64 x3 y3
               in if fgt (sqrDistanceTo64 p2 p3) (sqrDistanceTo64 p2 p3t) then p3t else p3)
            else p3)
      else
        (let y3 = snap64 (fy p2) (fy d);
             x3 = fx p2
         in Vec64 x3 y3))"

definition hittingCell64 :: "Vec64 \<Rightarrow> Vec64 \<Rightarrow> Vec64" where
  "hittingCell64 p1 p2 =
     (let d = sub64 p2 p1
      in Vec64 (ffloor (fadd (fx p2) (fmul (fsign (fx d)) EPS64)))
               (ffloor (fadd (fy p2) (fmul (fsign (fy d)) EPS64))))"

text \<open>
  The size of a scene is a pair of array lengths (or \<^verbatim>\<open>Number.MIN_VALUE\<close>), binary64
  values as they are. An array read at a number that is not finite is \<^verbatim>\<open>undefined\<close>.
\<close>

definition insideScene64 :: "Scene \<Rightarrow> Vec64 \<Rightarrow> bool" where
  "insideScene64 scene p =
     (let size = sceneSize scene
      in fge (fx p) (Fin 0) \<and> flt (fx p) (Fin (vx size)) \<and>
         fge (fy p) (Fin 0) \<and> flt (fy p) (Fin (vy size)))"

fun at_index64 :: "'a list \<Rightarrow> f64 \<Rightarrow> 'a option" where
  "at_index64 xs (Fin i) = at_index xs i"
| "at_index64 xs PInf = None"
| "at_index64 xs NInf = None"
| "at_index64 xs NaN = None"

definition cellAt64 :: "Scene \<Rightarrow> Vec64 \<Rightarrow> error + Cell option" where
  "cellAt64 scene c =
     (case at_index64 scene (fy c) of
        None \<Rightarrow> Inl TypeError
      | Some row \<Rightarrow> Inr (at_index64 row (fx c)))"

text \<open>
  The loop of \<^verbatim>\<open>castRay\<close> over binary64; \<^verbatim>\<open>FAR_CLIPPING_PLANE ** 2\<close> is the binary64
  value 100.
\<close>

partial_function (option) castRay64_loop ::
  "Scene \<Rightarrow> Vec64 \<Rightarrow> Vec64 \<Rightarrow> Vec64 \<Rightarrow> (error + Vec64) option" where
  "castRay64_loop scene start p1 p2 =
     (if flt (sqrDistanceTo64 start p1) (Fin (FAR_CLIPPING_PLANE ^ 2)) then
        (let c = hittingCell64 p1 p2 in
         if insideScene64 scene c then
           (case cellAt64 scene c of
              Inl e \<Rightarrow> Some (Inl e)
            | Inr cell \<Rightarrow>
                if cell \<noteq> Some Empty then Some (Inr p2)
                else castRay64_loop scene start p2 (rayStep64 p1 p2))
         else castRay64_loop scene start p2 (rayStep64 p1 p2))
      else Some (Inr p2))"

definition castRay64 :: "Scene \<Rightarrow> Vec64 \<Rightarrow> Vec64 \<Rightarrow> (error + Vec64) option" where
  "castRay64 scene p1 p2 = castRay64_loop scene p1 p1 p2"

section \<open>Vector algebra\<close>

lemma length_vec_zero_iff: "length_vec v = 0 \<longleftrightarrow> v = zero"
  by (cases v) (simp add: length_vec_def sqrLength_def zero_def sum_squares_eq_zero_iff
      flip: power2_eq_square)

lemma length_vec_nonneg: "0 \<le> length_vec v"
  by (simp add: length_vec_def sqrLength_def)

text \<open>
  Over the reals \<open>lerp a b 0\<close> is \<open>a\<close> and \<open>lerp a b 1\<close> is \<open>b\<close>, and \<open>lerp a b alpha\<close> is
  affine in \<open>alpha\<close>; \<open>norm_vec\<close> maps the zero vector to itself and any other vector to
  a vector of length one. What remains of this in binary64 is in the sections on
  \<open>lerp64\<close> and \<open>norm64\<close> below.
\<close>

lemma lerp_exact:
  "lerp a b 0 = a \<and> lerp a b 1 = b \<and>
   lerp a b alpha = add a (scale (sub b a) alpha) \<and>
   lerp a b ((1 - t) * alpha + t * beta) =
     add (scale (lerp a b alpha) (1 - t)) (scale (lerp a b beta) t)"
  by (cases a; cases b) (simp add: lerp_def add_def scale_def sub_def algebra_simps)

lemma norm_vec_exact:
  "norm_vec zero = zero \<and>
   (v \<noteq> zero \<longrightarrow> 0 < length_vec v \<and>
      norm_vec v = Vector2 (vx v / length_vec v) (vy v / length_vec v) \<and>
      length_vec (norm_vec v) = 1)"
proof -
  have z: "norm_vec zero = zero"
    using length_vec_zero_iff[of zero] by (simp add: norm_vec_def)
  have "0 < length_vec v \<and>
      norm_vec v = Vector2 (vx v / length_vec v) (vy v / length_vec v) \<and>
      length_vec (norm_vec v) = 1" if "v \<noteq> zero"
  proof -
    from that have ne: "length_vec v \<noteq> 0" by (simp add: length_vec_zero_iff)
    with length_vec_nonneg[of v] have pos: "0 < length_vec v" by simp
    from ne have n: "norm_vec v = Vector2 (vx v / length_vec v) (vy v / length_vec v)"
      by (simp add: norm_vec_def Let_def)
    have "sqrLength (norm_vec v) = sqrLength v / (length_vec v)\<^sup>2"
      unfolding n by (simp add: sqrLength_def power2_eq_square add_divide_distrib)
    also have "(length_vec v)\<^sup>2 = sqrLength v"
      by (simp add: length_vec_def sqrLength_def)
    finally have "sqrLength (norm_vec v) = 1"
      using ne by (simp add: length_vec_def)
    then have "length_vec (norm_vec v) = 1" by (simp add: length_vec_def)
    with pos n show ?thesis by simp
  qed
  with z show ?thesis by blast
qed

section \<open>Binary64: rounding\<close>

text \<open>
  Facts to evaluate the binary64 functions at given values.
\<close>

lemmas fl_eval = fl_def expo.simps quantum_def round_even_def power_int_minus Let_def

lemmas v64_eval = add64_def sub64_def scale64_def sqrLength64_def length64_def norm64_def
  sqrDistanceTo64_def lerp64_def snap64_def fsub_def fgt_def feq_def EPS64_def zero64_def


lemma EPS64_rounded: "fl (1 / 10 ^ 7) = EPS64"
  by (simp add: fl_eval EPS64_def)

text \<open>
  The exponent brackets its argument; rounding moves a number by half a spacing at
  most, by a relative error of \<open>2\<^sup>-\<^sup>5\<^sup>3\<close> in the normal range; it underflows to zero below
  \<open>2\<^sup>-\<^sup>1\<^sup>0\<^sup>7\<^sup>5\<close> and overflows to infinity from \<open>2\<^sup>1\<^sup>0\<^sup>2\<^sup>4\<close> on.
\<close>

lemma expo_bounds:
  "x \<noteq> 0 \<Longrightarrow> 2 powi expo x \<le> \<bar>x\<bar> \<and> \<bar>x\<bar> < 2 powi (expo x + 1)"
proof (induction x rule: expo.induct)
  case (1 x)
  consider (big) "2 \<le> \<bar>x\<bar>" | (small) "\<bar>x\<bar> < 1" | (mid) "1 \<le> \<bar>x\<bar>" "\<bar>x\<bar> < 2"
    by linarith
  then show ?case
  proof cases
    case big
    with "1.prems" have e: "expo x = expo (x / 2) + 1"
      by (subst expo.simps) simp
    from "1.IH"(1)[OF "1.prems" big] "1.prems"
    have "2 powi expo (x / 2) \<le> \<bar>x\<bar> / 2" "\<bar>x\<bar> / 2 < 2 powi (expo (x / 2) + 1)"
      by simp_all
    then show ?thesis
      unfolding e by (simp add: power_int_add)
  next
    case small
    with "1.prems" have e: "expo x = expo (x * 2) - 1"
      by (subst expo.simps) simp
    from small have nb: "\<not> 2 \<le> \<bar>x\<bar>" by simp
    from "1.IH"(2)[OF "1.prems" nb small] "1.prems"
    have "2 powi expo (x * 2) \<le> \<bar>x\<bar> * 2" "\<bar>x\<bar> * 2 < 2 powi (expo (x * 2) + 1)"
      by (simp_all add: abs_mult)
    then show ?thesis
      unfolding e by (simp add: power_int_add power_int_diff)
  next
    case mid
    with "1.prems" have "expo x = 0"
      by (subst expo.simps) simp
    with mid show ?thesis by simp
  qed
qed

lemma expo_0: "expo 0 = - 1022"
  by (subst expo.simps) simp

lemma quantum_pos: "0 < quantum x"
  by (simp add: quantum_def)

lemma round_even_err: "\<bar>of_int (round_even y) - y\<bar> \<le> 1 / 2"
  unfolding round_even_def Let_def by (auto simp: abs_if) linarith+

lemma round_even_nonneg: "0 \<le> y \<Longrightarrow> 0 \<le> round_even y"
  unfolding round_even_def Let_def by auto

lemma round_even_0: "round_even 0 = 0"
  by (simp add: round_even_def)

lemma fl_0: "fl 0 = Fin 0"
  by (simp add: fl_def round_even_0)

lemma fl_Fin_eq:
  "fl x = Fin r \<Longrightarrow> r = of_int (round_even (x / quantum x)) * quantum x"
  by (simp add: fl_def Let_def split: if_splits)

lemma fl_err:
  assumes "fl x = Fin r"
  shows "\<bar>r - x\<bar> \<le> quantum x / 2"
proof -
  let ?q = "quantum x"
  have q: "0 < ?q" by (rule quantum_pos)
  have "r - x = (of_int (round_even (x / ?q)) - x / ?q) * ?q"
    using q by (simp add: fl_Fin_eq[OF assms] algebra_simps)
  then have "\<bar>r - x\<bar> = \<bar>of_int (round_even (x / ?q)) - x / ?q\<bar> * ?q"
    using q by (simp add: abs_mult)
  also have "\<dots> \<le> 1 / 2 * ?q"
    by (rule mult_right_mono[OF round_even_err]) (use q in simp)
  finally show ?thesis by simp
qed

lemma fl_nonneg:
  assumes "0 \<le> x" "fl x = Fin r"
  shows "0 \<le> r"
proof -
  have "0 \<le> x / quantum x" using assms(1) quantum_pos[of x] by simp
  from round_even_nonneg[OF this] quantum_pos[of x] show ?thesis
    unfolding fl_Fin_eq[OF assms(2)] by simp
qed

lemma powi2_less_imp:
  assumes "(2::real) powi a < 2 powi b"
  shows "a < b"
proof (rule ccontr)
  assume "\<not> a < b"
  then have "(2::real) powi b \<le> 2 powi a"
    by (intro power_int_increasing) simp_all
  with assms show False by simp
qed

lemma expo_unique:
  assumes "2 powi e \<le> \<bar>x\<bar>" "\<bar>x\<bar> < 2 powi (e + 1)"
  shows "expo x = e"
proof -
  have "x \<noteq> 0" using assms(1) by (smt (verit) zero_less_power_int abs_zero)
  from expo_bounds[OF this] have b: "2 powi expo x \<le> \<bar>x\<bar>" "\<bar>x\<bar> < 2 powi (expo x + 1)"
    by simp_all
  have "(2::real) powi e < 2 powi (expo x + 1)" using assms(1) b(2) by linarith
  then have 1: "e < expo x + 1" by (rule powi2_less_imp)
  have "(2::real) powi expo x < 2 powi (e + 1)" using assms(2) b(1) by linarith
  then have 2: "expo x < e + 1" by (rule powi2_less_imp)
  from 1 2 show ?thesis by simp
qed

lemma expo_ge:
  assumes "2 powi n \<le> \<bar>x\<bar>"
  shows "n \<le> expo x"
proof -
  have "x \<noteq> 0" using assms by (smt (verit) zero_less_power_int abs_zero)
  from expo_bounds[OF this] assms have "(2::real) powi n < 2 powi (expo x + 1)" by linarith
  then have "n < expo x + 1" by (rule powi2_less_imp)
  then show ?thesis by simp
qed

lemma expo_less:
  assumes "\<bar>x\<bar> < 2 powi n" "0 < n"
  shows "expo x < n"
proof (cases "x = 0")
  case True
  with assms(2) show ?thesis by (simp add: expo_0)
next
  case False
  from expo_bounds[OF this] assms(1) have "(2::real) powi expo x < 2 powi n" by linarith
  then show ?thesis by (rule powi2_less_imp)
qed

lemma round_even_of_int: "round_even (of_int k) = k"
  by (simp add: round_even_def)

lemma round_even_half: "\<bar>y\<bar> \<le> 1 / 2 \<Longrightarrow> round_even y = 0"
proof (cases "0 \<le> y")
  case True
  assume "\<bar>y\<bar> \<le> 1 / 2"
  with True have "\<lfloor>y\<rfloor> = 0" by (simp add: floor_eq_iff)
  with \<open>\<bar>y\<bar> \<le> 1 / 2\<close> True show ?thesis by (simp add: round_even_def)
next
  case False
  assume "\<bar>y\<bar> \<le> 1 / 2"
  with False have "\<lfloor>y\<rfloor> = - 1" by (simp add: floor_eq_iff)
  with \<open>\<bar>y\<bar> \<le> 1 / 2\<close> False show ?thesis by (simp add: round_even_def Let_def)
qed

lemma round_even_ge:
  assumes "of_int k \<le> y"
  shows "k \<le> round_even y"
proof -
  have "\<bar>of_int (round_even y) - y\<bar> \<le> 1 / 2" by (rule round_even_err)
  then have "y - 1 / 2 \<le> of_int (round_even y)" by linarith
  with assms have "(of_int k :: real) - 1 / 2 \<le> of_int (round_even y)" by linarith
  then have "(of_int k :: real) < of_int (round_even y) + 1" by linarith
  then have "k < round_even y + 1" by linarith
  then show ?thesis by simp
qed

lemma quantum_tiny:
  assumes "x \<noteq> 0" "\<bar>x\<bar> < 2 powi (- 1022)"
  shows "quantum x = 2 powi (- 1074)"
proof -
  from expo_bounds[OF assms(1)] assms(2) have "(2::real) powi expo x < 2 powi (- 1022)"
    by linarith
  then have "expo x < - 1022" by (rule powi2_less_imp)
  then show ?thesis by (simp add: quantum_def max_def)
qed

lemma quantum_normal:
  assumes "2 powi (- 1022) \<le> \<bar>x\<bar>"
  shows "quantum x \<le> \<bar>x\<bar> / 2 ^ 52"
proof -
  have "x \<noteq> 0" using assms by (smt (verit) zero_less_power_int abs_zero)
  from expo_ge[OF assms] have "quantum x = 2 powi (expo x - 52)"
    by (simp add: quantum_def max_def)
  also have "\<dots> = 2 powi expo x / 2 ^ 52"
    by (simp add: power_int_diff)
  also have "\<dots> \<le> \<bar>x\<bar> / 2 ^ 52"
    using expo_bounds[OF \<open>x \<noteq> 0\<close>] by (simp add: divide_right_mono)
  finally show ?thesis .
qed

lemma quantum_half_le: "quantum x / 2 \<le> \<bar>x\<bar> / 2 ^ 53 + 2 powi (- 1075)"
proof (cases "2 powi (- 1022) \<le> \<bar>x\<bar>")
  case True
  from quantum_normal[OF this] have "quantum x / 2 \<le> \<bar>x\<bar> / 2 ^ 53" by simp
  moreover have "0 \<le> (2::real) powi (- 1075)" by simp
  ultimately show ?thesis by linarith
next
  case False
  then have lt: "\<bar>x\<bar> < 2 powi (- 1022)" by simp
  have "quantum x / 2 \<le> 2 powi (- 1075)"
  proof (cases "x = 0")
    case True
    then show ?thesis by (simp add: quantum_def expo_0 power_int_minus)
  next
    case False
    from quantum_tiny[OF this lt] show ?thesis by (simp add: power_int_minus)
  qed
  moreover have "0 \<le> \<bar>x\<bar> / 2 ^ 53" by simp
  ultimately show ?thesis by linarith
qed

lemma quantum_lt2:
  assumes "\<bar>z\<bar> < 2"
  shows "quantum z \<le> 1 / 2 ^ 52"
proof -
  have "\<bar>z\<bar> < 2 powi 1" using assms by simp
  from expo_less[OF this] have "expo z < 1" by simp
  then have "max (expo z) (- 1022) - 52 \<le> - 52" by simp
  then have "quantum z \<le> 2 powi (- 52)"
    unfolding quantum_def by (rule power_int_increasing) simp
  also have "(2::real) powi (- 52) = 1 / 2 ^ 52" by (simp add: power_int_minus divide_simps)
  finally show ?thesis .
qed

lemma fl_underflow:
  assumes "\<bar>x\<bar> \<le> 2 powi (- 1075)"
  shows "fl x = Fin 0"
proof (cases "x = 0")
  case True
  then show ?thesis by (simp add: fl_0)
next
  case False
  have "(2::real) powi (- 1075) < 2 powi (- 1022)"
    by (rule power_int_strict_increasing) simp_all
  with assms have "\<bar>x\<bar> < 2 powi (- 1022)" by linarith
  from quantum_tiny[OF False this] have q: "quantum x = 2 powi (- 1074)" .
  have "(2::real) powi (- 1075) = 2 powi (- 1074) / 2"
    by (simp add: power_int_minus)
  with assms have "\<bar>x / 2 powi (- 1074)\<bar> \<le> 1 / 2"
    by (simp add: field_simps power_int_minus)
  from round_even_half[OF this] show ?thesis
    by (simp add: fl_def q)
qed

lemma fl_overflow:
  assumes "2 ^ 1024 \<le> x"
  shows "fl x = PInf"
proof -
  have x0: "0 < x" using assms by (smt (verit) zero_less_power)
  have p: "(2::real) powi 1024 = 2 ^ 1024" by simp
  have "2 powi 1024 \<le> \<bar>x\<bar>" using assms x0 unfolding p by simp
  from expo_ge[OF this] have e: "1024 \<le> expo x" .
  then have q: "quantum x = 2 powi (expo x - 52)" by (simp add: quantum_def max_def)
  have qpos: "0 < quantum x" by (rule quantum_pos)
  have "2 powi expo x \<le> x" using expo_bounds[of x] x0 by simp
  then have "2 powi expo x / quantum x \<le> x / quantum x"
    using qpos by (simp add: divide_right_mono)
  moreover have "(2::real) powi expo x / quantum x = of_int (2 ^ 52)"
    unfolding q by (simp add: power_int_diff)
  ultimately have "of_int (2 ^ 52) \<le> x / quantum x" by simp
  from round_even_ge[OF this] have "(2::int) ^ 52 \<le> round_even (x / quantum x)" .
  then have "(of_int (2 ^ 52) :: real) \<le> of_int (round_even (x / quantum x))"
    by (simp only: of_int_le_iff)
  then have "of_int (2 ^ 52) * quantum x \<le> of_int (round_even (x / quantum x)) * quantum x"
    using qpos by (simp only: mult_le_cancel_right) simp
  moreover have "of_int (2 ^ 52) * quantum x = 2 powi expo x"
    unfolding q by (simp add: power_int_diff)
  moreover have "(2::real) powi 1024 \<le> 2 powi expo x"
    by (rule power_int_increasing) (use e in simp_all)
  ultimately have "2 ^ 1024 \<le> of_int (round_even (x / quantum x)) * quantum x"
    unfolding p by linarith
  then show ?thesis by (simp add: fl_def Let_def)
qed

lemma fl_bound:
  assumes "\<bar>x\<bar> \<le> 2 ^ 1023"
  shows "\<exists>r. fl x = Fin r \<and> \<bar>r - x\<bar> \<le> quantum x / 2"
proof -
  define r where "r = of_int (round_even (x / quantum x)) * quantum x"
  have q: "0 < quantum x" by (rule quantum_pos)
  have "r - x = (of_int (round_even (x / quantum x)) - x / quantum x) * quantum x"
    using q by (simp add: r_def algebra_simps)
  then have "\<bar>r - x\<bar> = \<bar>of_int (round_even (x / quantum x)) - x / quantum x\<bar> * quantum x"
    using q by (simp add: abs_mult)
  also have "\<dots> \<le> 1 / 2 * quantum x"
    by (rule mult_right_mono[OF round_even_err]) (use q in simp)
  finally have e: "\<bar>r - x\<bar> \<le> quantum x / 2" by simp
  have "(2::real) powi (- 1075) \<le> 2 powi 0"
    by (rule power_int_increasing) simp_all
  then have "(2::real) powi (- 1075) \<le> 1" by simp
  with quantum_half_le[of x] e have "\<bar>r - x\<bar> \<le> \<bar>x\<bar> / 2 ^ 53 + 1" by linarith
  moreover have "\<bar>x\<bar> / 2 ^ 53 \<le> 2 ^ 1023 / 2 ^ 53" using assms by (simp add: divide_right_mono)
  ultimately have "\<bar>r\<bar> \<le> 2 ^ 1023 + 2 ^ 1023 / 2 ^ 53 + 1" using assms by linarith
  also have "\<dots> < (2::real) ^ 1024" by simp
  finally have "\<bar>r\<bar> < 2 ^ 1024" .
  then have "r < 2 ^ 1024" "- (2 ^ 1024) < r"
    by (simp_all only: abs_less_iff minus_less_iff[of r])
  then have "\<not> 2 ^ 1024 \<le> r" "\<not> r \<le> - (2 ^ 1024)"
    by (simp_all only: not_le)
  then have "fl x = Fin r" by (simp add: fl_def Let_def r_def)
  with e show ?thesis by blast
qed

lemma fl_rel:
  assumes "2 powi (- 1022) \<le> \<bar>x\<bar>" "\<bar>x\<bar> \<le> 2 ^ 1023"
  shows "\<exists>r. fl x = Fin r \<and> \<bar>r - x\<bar> \<le> \<bar>x\<bar> / 2 ^ 53"
proof -
  from fl_bound[OF assms(2)] obtain r where r: "fl x = Fin r" "\<bar>r - x\<bar> \<le> quantum x / 2"
    by blast
  from quantum_normal[OF assms(1)] have "quantum x / 2 \<le> \<bar>x\<bar> / 2 ^ 53" by simp
  with r show ?thesis by (intro exI[of _ r]) linarith
qed

lemma fl_abs:
  assumes "\<bar>x\<bar> \<le> 2 ^ 1023"
  shows "\<exists>r. fl x = Fin r \<and> \<bar>r - x\<bar> \<le> \<bar>x\<bar> / 2 ^ 53 + 2 powi (- 1075)"
proof -
  from fl_bound[OF assms] obtain r where r: "fl x = Fin r" "\<bar>r - x\<bar> \<le> quantum x / 2"
    by blast
  with quantum_half_le[of x] show ?thesis by (intro exI[of _ r]) linarith
qed

lemma is_double_powi:
  assumes "- 1022 \<le> n" "n \<le> 1023"
  shows "is_double (2 powi n)"
proof -
  have "expo (2 powi n) = n"
    by (rule expo_unique) (simp_all add: power_int_add)
  then have q: "quantum (2 powi n) = 2 powi (n - 52)"
    using assms(1) by (simp add: quantum_def max_def)
  have "(2::real) powi n / 2 powi (n - 52) = 2 powi 52"
    by (simp add: power_int_diff)
  also have "\<dots> = of_int (2 ^ 52)" by simp
  finally have r: "round_even (2 powi n / 2 powi (n - 52)) = 2 ^ 52"
    by (simp only: round_even_of_int)
  have v: "of_int (2 ^ 52) * 2 powi (n - 52) = (2::real) powi n"
    by (simp add: power_int_diff)
  have "(2::real) powi n \<le> 2 powi 1023"
    by (rule power_int_increasing) (use assms(2) in simp_all)
  also have "\<dots> < 2 ^ 1024" by simp
  finally have "(2::real) powi n < 2 ^ 1024" .
  then have a: "\<not> 2 ^ 1024 \<le> (2::real) powi n" by (simp only: not_le)
  have "- (2 ^ 1024) < (0::real)" by simp
  also have "0 < (2::real) powi n" by simp
  finally have b: "\<not> (2::real) powi n \<le> - (2 ^ 1024)" by (simp only: not_le)
  show ?thesis
    unfolding is_double_def fl_def Let_def q r v by (simp only: a b if_False)
qed

lemma is_double_neg_powi:
  assumes "- 1022 \<le> n" "n \<le> 1023"
  shows "is_double (- (2 powi n))"
proof -
  have "expo (- (2 powi n)) = n"
    by (rule expo_unique) (simp_all add: power_int_add)
  then have q: "quantum (- (2 powi n)) = 2 powi (n - 52)"
    using assms(1) by (simp add: quantum_def max_def)
  have "- ((2::real) powi n) / 2 powi (n - 52) = - (2 powi 52)"
    by (simp add: power_int_diff)
  also have "\<dots> = of_int (- (2 ^ 52))" by simp
  finally have r: "round_even (- (2 powi n) / 2 powi (n - 52)) = - (2 ^ 52)"
    by (simp only: round_even_of_int)
  have v: "of_int (- (2 ^ 52)) * 2 powi (n - 52) = - ((2::real) powi n)"
    by (simp add: power_int_diff)
  have "(2::real) powi n \<le> 2 powi 1023"
    by (rule power_int_increasing) (use assms(2) in simp_all)
  also have "\<dots> < 2 ^ 1024" by simp
  finally have "(2::real) powi n < 2 ^ 1024" .
  then have b: "\<not> - ((2::real) powi n) \<le> - (2 ^ 1024)" by (simp only: neg_le_iff_le not_le)
  have "- ((2::real) powi n) < 0" by simp
  also have "(0::real) < 2 ^ 1024" by simp
  finally have a: "\<not> 2 ^ 1024 \<le> - ((2::real) powi n)" by (simp only: not_le)
  show ?thesis
    unfolding is_double_def fl_def Let_def q r v by (simp only: a b if_False)
qed


section \<open>Binary64: lerp\<close>

lemma fadd_Fin_left:
  assumes "fadd m (Fin a) = Fin r"
  shows "\<exists>m'. m = Fin m' \<and> fl (m' + a) = Fin r"
  using assms by (cases m) simp_all

lemma fmul_Fin_left:
  assumes "fmul s (Fin t) = Fin m"
  shows "\<exists>s'. s = Fin s' \<and> fl (s' * t) = Fin m"
  using assms by (cases s) (simp_all split: if_splits)

lemma fsub_Fin: "fsub (Fin b) (Fin a) = fl (b - a)"
  by (simp add: fsub_def)

lemma lerp64_component_0:
  assumes "is_double a" "fsub (Fin b) (Fin a) = Fin s"
  shows "fadd (fmul (fsub (Fin b) (Fin a)) (Fin 0)) (Fin a) = Fin a"
  using assms by (simp add: fl_0 is_double_def)

lemma lerp64_component_1:
  assumes "is_double b" "is_double (b - a)"
  shows "fadd (fmul (fsub (Fin b) (Fin a)) (Fin 1)) (Fin a) = Fin b"
  using assms by (simp add: fsub_Fin is_double_def)

lemma lerp64_component_err:
  assumes "fadd (fmul (fsub (Fin b) (Fin a)) (Fin t)) (Fin a) = Fin r"
  shows "\<exists>s m. fsub (Fin b) (Fin a) = Fin s \<and> fmul (Fin s) (Fin t) = Fin m \<and>
           \<bar>r - (a + (b - a) * t)\<bar>
             \<le> (quantum (b - a) * \<bar>t\<bar> + quantum (s * t) + quantum (m + a)) / 2"
proof -
  from fadd_Fin_left[OF assms] obtain m
    where m: "fmul (fsub (Fin b) (Fin a)) (Fin t) = Fin m" and r: "fl (m + a) = Fin r"
    by blast
  from fmul_Fin_left[OF m] obtain s
    where s: "fsub (Fin b) (Fin a) = Fin s" and m': "fl (s * t) = Fin m"
    by blast
  from s have s': "fl (b - a) = Fin s" by (simp add: fsub_Fin)
  have e1: "\<bar>s - (b - a)\<bar> \<le> quantum (b - a) / 2" by (rule fl_err[OF s'])
  have e2: "\<bar>m - s * t\<bar> \<le> quantum (s * t) / 2" by (rule fl_err[OF m'])
  have e3: "\<bar>r - (m + a)\<bar> \<le> quantum (m + a) / 2" by (rule fl_err[OF r])
  have "\<bar>(s - (b - a)) * t\<bar> \<le> quantum (b - a) / 2 * \<bar>t\<bar>"
    unfolding abs_mult by (rule mult_right_mono[OF e1]) simp
  moreover have "r - (a + (b - a) * t) = (r - (m + a)) + (m - s * t) + (s - (b - a)) * t"
    by (simp add: algebra_simps)
  ultimately have "\<bar>r - (a + (b - a) * t)\<bar>
      \<le> quantum (m + a) / 2 + quantum (s * t) / 2 + quantum (b - a) / 2 * \<bar>t\<bar>"
    using e2 e3 by linarith
  then have "\<bar>r - (a + (b - a) * t)\<bar>
      \<le> (quantum (b - a) * \<bar>t\<bar> + quantum (s * t) + quantum (m + a)) / 2"
    by (simp add: field_simps)
  with s m' show ?thesis by auto
qed

lemma lerp64_components:
  "lerp64 (Vec64 (Fin ax) (Fin ay)) (Vec64 (Fin bx) (Fin by)) t =
     Vec64 (fadd (fmul (fsub (Fin bx) (Fin ax)) t) (Fin ax))
           (fadd (fmul (fsub (Fin by) (Fin ay)) t) (Fin ay))"
  by (simp add: lerp64_def add64_def scale64_def sub64_def)


text \<open>
  Claim C4, as the code has it. In binary64 \<open>lerp\<close> rounds three times, and the claim's
  ``exactly'' holds on a part of the inputs only. At \<open>alpha = 0\<close> the result is \<open>a\<close>
  whenever \<open>b - a\<close> is finite (the subtraction does not overflow). At \<open>alpha = 1\<close> the
  result is \<open>b\<close> whenever \<open>b - a\<close> is computed without rounding, that is, whenever the
  real difference of each coordinate is a binary64 value. For every \<open>alpha\<close> and every
  finite result, each coordinate differs from the affine value \<open>a + (b - a) * alpha\<close> by
  at most half a spacing for each of the three operations: \<open>lerp\<close> is affine in
  \<open>alpha\<close> up to that rounding error.
\<close>

theorem lerp64_endpoints:
  "(is_double ax \<and> is_double ay \<and>
      (\<exists>sx sy. sub64 (Vec64 (Fin bx) (Fin by)) (Vec64 (Fin ax) (Fin ay)) = Vec64 (Fin sx) (Fin sy))
    \<longrightarrow> lerp64 (Vec64 (Fin ax) (Fin ay)) (Vec64 (Fin bx) (Fin by)) (Fin 0) = Vec64 (Fin ax) (Fin ay)) \<and>
   (is_double bx \<and> is_double by \<and> is_double (bx - ax) \<and> is_double (by - ay)
    \<longrightarrow> lerp64 (Vec64 (Fin ax) (Fin ay)) (Vec64 (Fin bx) (Fin by)) (Fin 1) = Vec64 (Fin bx) (Fin by)) \<and>
   (lerp64 (Vec64 (Fin ax) (Fin ay)) (Vec64 (Fin bx) (Fin by)) (Fin t) = Vec64 (Fin rx) (Fin ry)
    \<longrightarrow> (\<exists>sx mx sy my.
          sub64 (Vec64 (Fin bx) (Fin by)) (Vec64 (Fin ax) (Fin ay)) = Vec64 (Fin sx) (Fin sy) \<and>
          scale64 (Vec64 (Fin sx) (Fin sy)) (Fin t) = Vec64 (Fin mx) (Fin my) \<and>
          \<bar>rx - (ax + (bx - ax) * t)\<bar>
            \<le> (quantum (bx - ax) * \<bar>t\<bar> + quantum (sx * t) + quantum (mx + ax)) / 2 \<and>
          \<bar>ry - (ay + (by - ay) * t)\<bar>
            \<le> (quantum (by - ay) * \<bar>t\<bar> + quantum (sy * t) + quantum (my + ay)) / 2))"
proof (intro conjI impI)
  assume a: "is_double ax \<and> is_double ay \<and>
      (\<exists>sx sy. sub64 (Vec64 (Fin bx) (Fin by)) (Vec64 (Fin ax) (Fin ay)) = Vec64 (Fin sx) (Fin sy))"
  then obtain sx sy where "fsub (Fin bx) (Fin ax) = Fin sx" "fsub (Fin by) (Fin ay) = Fin sy"
    by (auto simp: sub64_def)
  with a show "lerp64 (Vec64 (Fin ax) (Fin ay)) (Vec64 (Fin bx) (Fin by)) (Fin 0) = Vec64 (Fin ax) (Fin ay)"
    unfolding lerp64_components
    using lerp64_component_0[of ax bx sx] lerp64_component_0[of ay "by" sy] by simp
next
  assume "is_double bx \<and> is_double by \<and> is_double (bx - ax) \<and> is_double (by - ay)"
  then show "lerp64 (Vec64 (Fin ax) (Fin ay)) (Vec64 (Fin bx) (Fin by)) (Fin 1) = Vec64 (Fin bx) (Fin by)"
    unfolding lerp64_components by (simp only: lerp64_component_1)
next
  assume "lerp64 (Vec64 (Fin ax) (Fin ay)) (Vec64 (Fin bx) (Fin by)) (Fin t) = Vec64 (Fin rx) (Fin ry)"
  then have x: "fadd (fmul (fsub (Fin bx) (Fin ax)) (Fin t)) (Fin ax) = Fin rx"
    and y: "fadd (fmul (fsub (Fin by) (Fin ay)) (Fin t)) (Fin ay) = Fin ry"
    unfolding lerp64_components by simp_all
  from lerp64_component_err[OF x] obtain sx mx
    where sx: "fsub (Fin bx) (Fin ax) = Fin sx" and mx: "fmul (Fin sx) (Fin t) = Fin mx"
      and ex: "\<bar>rx - (ax + (bx - ax) * t)\<bar>
            \<le> (quantum (bx - ax) * \<bar>t\<bar> + quantum (sx * t) + quantum (mx + ax)) / 2"
    by blast
  from lerp64_component_err[OF y] obtain sy my
    where sy: "fsub (Fin by) (Fin ay) = Fin sy" and my: "fmul (Fin sy) (Fin t) = Fin my"
      and ey: "\<bar>ry - (ay + (by - ay) * t)\<bar>
            \<le> (quantum (by - ay) * \<bar>t\<bar> + quantum (sy * t) + quantum (my + ay)) / 2"
    by blast
  have "sub64 (Vec64 (Fin bx) (Fin by)) (Vec64 (Fin ax) (Fin ay)) = Vec64 (Fin sx) (Fin sy)"
    using sx sy by (simp add: sub64_def)
  moreover have "scale64 (Vec64 (Fin sx) (Fin sy)) (Fin t) = Vec64 (Fin mx) (Fin my)"
    using mx my by (simp add: scale64_def)
  ultimately show "\<exists>sx mx sy my.
          sub64 (Vec64 (Fin bx) (Fin by)) (Vec64 (Fin ax) (Fin ay)) = Vec64 (Fin sx) (Fin sy) \<and>
          scale64 (Vec64 (Fin sx) (Fin sy)) (Fin t) = Vec64 (Fin mx) (Fin my) \<and>
          \<bar>rx - (ax + (bx - ax) * t)\<bar>
            \<le> (quantum (bx - ax) * \<bar>t\<bar> + quantum (sx * t) + quantum (mx + ax)) / 2 \<and>
          \<bar>ry - (ay + (by - ay) * t)\<bar>
            \<le> (quantum (by - ay) * \<bar>t\<bar> + quantum (sy * t) + quantum (my + ay)) / 2"
    using ex ey by blast
qed

lemma is_double_quarter: "is_double (1/4)" and is_double_0: "is_double 0"
  and is_double_1: "is_double 1" and is_double_3quarters: "is_double (3/4)"
  by (simp_all add: is_double_def fl_eval)

lemma lerp64_quarter_half:
  "lerp64 (Vec64 (Fin (1/4)) (Fin 0)) (Vec64 (Fin 1) (Fin 0)) (Fin (1/2)) = Vec64 (Fin (5/8)) (Fin 0)"
  by (simp add: fl_eval v64_eval)

lemma sub64_quarter:
  "sub64 (Vec64 (Fin 1) (Fin 0)) (Vec64 (Fin (1/4)) (Fin 0)) = Vec64 (Fin (3/4)) (Fin 0)"
  by (simp add: fl_eval v64_eval)

theorem lerp64_endpoints_witness:
  "is_double (1/4) \<and> is_double 0 \<and> is_double 1 \<and> is_double (1 - 1/4) \<and>
   sub64 (Vec64 (Fin 1) (Fin 0)) (Vec64 (Fin (1/4)) (Fin 0)) = Vec64 (Fin (3/4)) (Fin 0) \<and>
   lerp64 (Vec64 (Fin (1/4)) (Fin 0)) (Vec64 (Fin 1) (Fin 0)) (Fin 0) = Vec64 (Fin (1/4)) (Fin 0) \<and>
   lerp64 (Vec64 (Fin (1/4)) (Fin 0)) (Vec64 (Fin 1) (Fin 0)) (Fin 1) = Vec64 (Fin 1) (Fin 0) \<and>
   lerp64 (Vec64 (Fin (1/4)) (Fin 0)) (Vec64 (Fin 1) (Fin 0)) (Fin (1/2)) = Vec64 (Fin (5/8)) (Fin 0) \<and>
   \<bar>5/8 - (1/4 + (1 - 1/4) * (1/2))\<bar>
     \<le> (quantum (1 - 1/4) * \<bar>1/2\<bar> + quantum (3/4 * (1/2)) + quantum (3/8 + 1/4)) / (2::real)"
proof -
  have d: "is_double (1 - 1/4)" using is_double_3quarters by simp
  have d0: "is_double (0 - 0)" using is_double_0 by simp
  note t = lerp64_endpoints[of "1/4" 0 1 0 "1/2" "5/8" 0]
  have c0: "lerp64 (Vec64 (Fin (1/4)) (Fin 0)) (Vec64 (Fin 1) (Fin 0)) (Fin 0) = Vec64 (Fin (1/4)) (Fin 0)"
    using t is_double_quarter is_double_0 sub64_quarter by blast
  have c1: "lerp64 (Vec64 (Fin (1/4)) (Fin 0)) (Vec64 (Fin 1) (Fin 0)) (Fin 1) = Vec64 (Fin 1) (Fin 0)"
    using t is_double_1 is_double_0 d d0 by blast
  from t lerp64_quarter_half obtain sx mx sy my
    where s: "sub64 (Vec64 (Fin 1) (Fin 0)) (Vec64 (Fin (1/4)) (Fin 0)) = Vec64 (Fin sx) (Fin sy)"
      and m: "scale64 (Vec64 (Fin sx) (Fin sy)) (Fin (1/2)) = Vec64 (Fin mx) (Fin my)"
      and e: "\<bar>5/8 - (1/4 + (1 - 1/4) * (1/2))\<bar>
          \<le> (quantum (1 - 1/4) * \<bar>1/2\<bar> + quantum (sx * (1/2)) + quantum (mx + 1/4)) / 2"
    by blast
  from s have sx: "sx = 3/4" and sy: "sy = 0" by (simp_all add: sub64_quarter)
  from m have mx: "mx = 3/8" unfolding sx sy by (simp add: fl_eval v64_eval)
  from e have ce: "\<bar>5/8 - (1/4 + (1 - 1/4) * (1/2))\<bar>
     \<le> (quantum (1 - 1/4) * \<bar>1/2\<bar> + quantum (3/4 * (1/2)) + quantum (3/8 + 1/4)) / (2::real)"
    unfolding sx mx .
  from is_double_quarter is_double_0 is_double_1 d sub64_quarter c0 c1 lerp64_quarter_half ce
  show ?thesis by blast
qed


text \<open>
  The claim as stated fails at ordinary inputs. With \<open>a = (0.2, 0)\<close> and \<open>b = (0.9, 0)\<close>,
  the binary64 values of these literals, \<open>lerp a b 1\<close> is \<open>(0.8999999999999999, 0)\<close>, the
  binary64 value next below \<open>0.9\<close>, and not \<open>b\<close>. With \<open>a = (-2\<^sup>1\<^sup>0\<^sup>2\<^sup>3, 0)\<close> and
  \<open>b = (2\<^sup>1\<^sup>0\<^sup>2\<^sup>3, 0)\<close> the difference overflows, and \<open>lerp a b 0\<close> is \<open>(NaN, 0)\<close>, not \<open>a\<close>.
\<close>

lemma fl_fifth: "fl (1/5) = Fin (3602879701896397 / 2 ^ 54)"
  by (simp add: fl_eval)

lemma fl_nine_tenths: "fl (9/10) = Fin (8106479329266893 / 2 ^ 53)"
  by (simp add: fl_eval)

lemma is_double_fifth: "is_double (3602879701896397 / 2 ^ 54)"
  by (simp add: is_double_def fl_eval)

lemma is_double_nine_tenths: "is_double (8106479329266893 / 2 ^ 53)"
  by (simp add: is_double_def fl_eval)

lemma lerp64_fifth_one:
  "lerp64 (Vec64 (Fin (3602879701896397 / 2 ^ 54)) (Fin 0))
          (Vec64 (Fin (8106479329266893 / 2 ^ 53)) (Fin 0)) (Fin 1)
     = Vec64 (Fin (2026619832316723 / 2 ^ 51)) (Fin 0)"
  by (simp add: fl_eval v64_eval)

lemma lerp64_overflow:
  "lerp64 (Vec64 (Fin (- (2 powi 1023))) (Fin 0)) (Vec64 (Fin (2 powi 1023)) (Fin 0)) (Fin 0)
     = Vec64 NaN (Fin 0)"
proof -
  have "(2::real) ^ 1024 = 2 powi 1024" by simp
  also have "\<dots> = 2 powi (1023 + 1)" by simp
  also have "\<dots> = 2 powi 1023 * 2 powi 1" by (rule power_int_add) simp
  finally have "(2::real) ^ 1024 \<le> 2 powi 1023 - - (2 powi 1023)" by simp
  then have "fl (2 powi 1023 - - (2 powi 1023)) = PInf" by (rule fl_overflow)
  then have "fsub (Fin (2 powi 1023)) (Fin (- (2 powi 1023))) = PInf"
    by (simp only: fsub_Fin)
  moreover have "fsub (Fin 0) (Fin 0) = Fin 0" by (simp add: fsub_Fin fl_0)
  ultimately show ?thesis
    by (simp add: lerp64_components fl_0)
qed

theorem lerp64_ends_inexact:
  "fl (1/5) = Fin (3602879701896397 / 2 ^ 54) \<and>
   fl (9/10) = Fin (8106479329266893 / 2 ^ 53) \<and>
   is_double (3602879701896397 / 2 ^ 54) \<and>
   is_double (8106479329266893 / 2 ^ 53) \<and>
   lerp64 (Vec64 (Fin (3602879701896397 / 2 ^ 54)) (Fin 0))
          (Vec64 (Fin (8106479329266893 / 2 ^ 53)) (Fin 0)) (Fin 1)
     = Vec64 (Fin (2026619832316723 / 2 ^ 51)) (Fin 0) \<and>
   lerp64 (Vec64 (Fin (3602879701896397 / 2 ^ 54)) (Fin 0))
          (Vec64 (Fin (8106479329266893 / 2 ^ 53)) (Fin 0)) (Fin 1)
     \<noteq> Vec64 (Fin (8106479329266893 / 2 ^ 53)) (Fin 0) \<and>
   is_double (- (2 powi 1023)) \<and> is_double (2 powi 1023) \<and>
   lerp64 (Vec64 (Fin (- (2 powi 1023))) (Fin 0)) (Vec64 (Fin (2 powi 1023)) (Fin 0)) (Fin 0)
     = Vec64 NaN (Fin 0) \<and>
   lerp64 (Vec64 (Fin (- (2 powi 1023))) (Fin 0)) (Vec64 (Fin (2 powi 1023)) (Fin 0)) (Fin 0)
     \<noteq> Vec64 (Fin (- (2 powi 1023))) (Fin 0)"
proof -
  have "Vec64 (Fin (2026619832316723 / 2 ^ 51)) (Fin 0) \<noteq> Vec64 (Fin (8106479329266893 / 2 ^ 53)) (Fin 0)"
    by simp
  then have a: "lerp64 (Vec64 (Fin (3602879701896397 / 2 ^ 54)) (Fin 0))
          (Vec64 (Fin (8106479329266893 / 2 ^ 53)) (Fin 0)) (Fin 1)
     \<noteq> Vec64 (Fin (8106479329266893 / 2 ^ 53)) (Fin 0)"
    unfolding lerp64_fifth_one by simp
  have d1: "is_double (- (2 powi 1023))" by (rule is_double_neg_powi) simp_all
  have d2: "is_double (2 powi 1023)" by (rule is_double_powi) simp_all
  have b: "lerp64 (Vec64 (Fin (- (2 powi 1023))) (Fin 0)) (Vec64 (Fin (2 powi 1023)) (Fin 0)) (Fin 0)
     \<noteq> Vec64 (Fin (- (2 powi 1023))) (Fin 0)"
    unfolding lerp64_overflow by simp
  from fl_fifth fl_nine_tenths is_double_fifth is_double_nine_tenths lerp64_fifth_one a
    d1 d2 lerp64_overflow b
  show ?thesis by blast
qed


section \<open>Binary64: norm\<close>

lemma square_le_510:
  fixes z :: real
  assumes "\<bar>z\<bar> \<le> 2 ^ 510"
  shows "z\<^sup>2 \<le> 2 ^ 1020"
proof -
  have "z\<^sup>2 = \<bar>z\<bar>\<^sup>2" by simp
  also have "\<dots> \<le> (2 ^ 510)\<^sup>2" by (rule power_mono[OF assms]) simp
  also have "\<dots> = (2::real) ^ 1020" by (simp add: power_mult[symmetric])
  finally show ?thesis .
qed

lemma square_ge_510:
  fixes z :: real
  assumes "2 powi (- 510) \<le> \<bar>z\<bar>"
  shows "2 powi (- 1020) \<le> z\<^sup>2"
proof -
  have "(2::real) powi (- 510) * 2 powi (- 510) = 2 powi (- 510 + - 510)"
    by (rule power_int_add[symmetric]) simp
  moreover have "(- 510::int) + - 510 = - 1020" by simp
  ultimately have "(2::real) powi (- 1020) = (2 powi (- 510))\<^sup>2"
    by (simp only: power2_eq_square)
  also have "\<dots> \<le> \<bar>z\<bar>\<^sup>2" by (rule power_mono[OF assms]) simp
  finally show ?thesis by simp
qed

lemma fmul_square:
  assumes "\<bar>z\<bar> \<le> 2 ^ 510"
  shows "\<exists>a. fmul (Fin z) (Fin z) = Fin a \<and> 0 \<le> a \<and> \<bar>a - z\<^sup>2\<bar> \<le> z\<^sup>2 / 2 ^ 53 + 2 powi (- 1075)"
proof -
  have "(2::real) ^ 1020 \<le> 2 ^ 1023" by (rule power_increasing) simp_all
  with square_le_510[OF assms] have "z\<^sup>2 \<le> 2 ^ 1023" by (rule order_trans)
  then have "\<bar>z * z\<bar> \<le> 2 ^ 1023" by (simp add: power2_eq_square)
  from fl_abs[OF this] obtain a
    where a: "fl (z * z) = Fin a" "\<bar>a - z * z\<bar> \<le> \<bar>z * z\<bar> / 2 ^ 53 + 2 powi (- 1075)"
    by blast
  have "0 \<le> a" by (rule fl_nonneg[OF _ a(1)]) simp
  with a show ?thesis by (intro exI[of _ a]) (simp add: power2_eq_square)
qed

lemma rel53:
  fixes z :: real
  assumes "0 \<le> z"
  shows "\<bar>z\<bar> / 2 ^ 53 \<le> z * (1 / 2 ^ 52)"
  using assms by simp

lemma rel_bounds:
  fixes s z c e :: real
  assumes "\<bar>s - z\<bar> \<le> e" "e \<le> z * c"
  shows "(1 - c) * z \<le> s" and "s \<le> (1 + c) * z"
proof -
  from assms have "\<bar>s - z\<bar> \<le> z * c" by linarith
  then show "(1 - c) * z \<le> s" and "s \<le> (1 + c) * z"
    by (simp_all add: algebra_simps abs_le_iff)
qed

lemma abs_rel:
  fixes l L d :: real
  assumes "(1 - d) * L \<le> l" "l \<le> (1 + d) * L"
  shows "\<bar>l - L\<bar> \<le> L * d"
  using assms by (simp add: algebra_simps abs_le_iff)

lemma powi_1020_square: "(2::real) powi (- 1020) = (2 powi (- 510))\<^sup>2"
proof -
  have "(2::real) powi (- 510) * 2 powi (- 510) = 2 powi (- 510 + - 510)"
    by (rule power_int_add[symmetric]) simp
  moreover have "(- 510::int) + - 510 = - 1020" by simp
  ultimately show ?thesis by (simp only: power2_eq_square)
qed

lemma sqrt_ge_510:
  assumes "2 powi (- 1020) \<le> T"
  shows "2 powi (- 510) \<le> sqrt T"
  by (rule real_le_rsqrt) (use assms in \<open>simp only: powi_1020_square\<close>)

lemma sqrt_le_511:
  assumes "T \<le> 2 * 2 ^ 1020"
  shows "sqrt T \<le> 2 ^ 511"
proof (rule real_le_lsqrt)
  show "0 \<le> (2::real) ^ 511" by simp
  have "((2::real) ^ 511)\<^sup>2 = 2 ^ 1022" by (simp only: power_mult[symmetric]) simp
  also have "\<dots> = 4 * 2 ^ 1020" by simp
  finally have "2 * (2::real) ^ 1020 \<le> (2 ^ 511)\<^sup>2" by simp
  with assms show "T \<le> (2 ^ 511)\<^sup>2" by (rule order_trans)
qed

lemma powi_1022_le_half_510: "(2::real) powi (- 1022) \<le> 2 powi (- 510) / 2"
proof -
  have "(2::real) powi (- 1022) \<le> 2 powi (- 511)"
    by (rule power_int_increasing) simp_all
  also have "(2::real) powi (- 511) = 2 powi (- 510 - 1)" by simp
  also have "\<dots> = 2 powi (- 510) / 2 powi 1" by (rule power_int_diff) simp
  also have "\<dots> = 2 powi (- 510) / 2" by simp
  finally show ?thesis .
qed

lemma two_512_le: "2 * (2::real) ^ 511 \<le> 2 ^ 1023"
proof -
  have "2 * (2::real) ^ 511 = 2 ^ 512" by simp
  also have "\<dots> \<le> 2 ^ 1023" by (rule power_increasing) simp_all
  finally show ?thesis .
qed

lemma length64_bound:
  assumes lo: "2 powi (- 510) \<le> \<bar>x\<bar> \<or> 2 powi (- 510) \<le> \<bar>y\<bar>"
    and hx: "\<bar>x\<bar> \<le> 2 ^ 510" and hy: "\<bar>y\<bar> \<le> 2 ^ 510"
  shows "\<exists>l. length64 (Vec64 (Fin x) (Fin y)) = Fin l \<and>
           (1 - 1 / 2 ^ 52)\<^sup>2 * sqrt (x\<^sup>2 + y\<^sup>2) \<le> l \<and>
           l \<le> (1 + 1 / 2 ^ 52)\<^sup>2 * sqrt (x\<^sup>2 + y\<^sup>2) \<and>
           2 powi (- 510) \<le> sqrt (x\<^sup>2 + y\<^sup>2)"
proof -
  define T where "T = x\<^sup>2 + y\<^sup>2"
  define c :: real where "c = 1 / 2 ^ 52"
  have c0: "0 < c" and c1: "c \<le> 1 / 4" and c53: "1 / 2 ^ 53 = c / 2" and c54: "1 / 2 ^ 54 = c / 4"
    by (simp_all add: c_def)
  have Tlo: "2 powi (- 1020) \<le> T"
    using lo square_ge_510[of x] square_ge_510[of y] zero_le_power2[of x] zero_le_power2[of y]
    unfolding T_def by linarith
  have Thi: "T \<le> 2 * 2 ^ 1020"
    using square_le_510[OF hx] square_le_510[OF hy] unfolding T_def by linarith
  have "0 < (2::real) powi (- 1020)" by simp
  with Tlo have T0: "0 < T" by linarith
  from fmul_square[OF hx] obtain a
    where a: "fmul (Fin x) (Fin x) = Fin a" "0 \<le> a" "\<bar>a - x\<^sup>2\<bar> \<le> x\<^sup>2 / 2 ^ 53 + 2 powi (- 1075)"
    by blast
  from fmul_square[OF hy] obtain b
    where b: "fmul (Fin y) (Fin y) = Fin b" "0 \<le> b" "\<bar>b - y\<^sup>2\<bar> \<le> y\<^sup>2 / 2 ^ 53 + 2 powi (- 1075)"
    by blast
  have eta: "2 * (2::real) powi (- 1075) = 2 powi (- 1020) / 2 ^ 54"
    by (simp add: power_int_minus divide_simps)
  have "\<bar>(a + b) - T\<bar> \<le> T / 2 ^ 53 + 2 * 2 powi (- 1075)"
    using a(3) b(3) unfolding T_def by (simp add: add_divide_distrib)
  also have "\<dots> \<le> T / 2 ^ 53 + T / 2 ^ 54"
    unfolding eta using Tlo by (simp add: divide_right_mono)
  also have "\<dots> = T * (c / 2) + T * (c / 4)"
    using c53 c54 by (simp add: field_simps)
  also have "\<dots> \<le> T * c" using T0 c0 by (simp add: field_simps)
  finally have ab: "\<bar>(a + b) - T\<bar> \<le> T * c" .
  then have ab_lo: "(1 - c) * T \<le> a + b" and ab_hi: "a + b \<le> (1 + c) * T"
    by (simp_all add: algebra_simps abs_le_iff)
  have Th: "T / 2 \<le> (1 - c) * T" using T0 c1 by (simp add: field_simps)
  with ab_lo Tlo have ab_min: "2 powi (- 1020) / 2 \<le> a + b" by linarith
  have "0 < T / 2" using T0 by simp
  with Th ab_lo have abpos: "0 < a + b" by linarith
  have "(2::real) powi (- 1022) \<le> 2 powi (- 1020) / 2"
    by (simp add: power_int_minus divide_simps)
  with ab_min have n1: "2 powi (- 1022) \<le> \<bar>a + b\<bar>" by linarith
  have "(1 + c) * T \<le> 2 * T" using T0 c1 by (simp add: field_simps)
  with ab_hi Thi have ab_max: "a + b \<le> 4 * 2 ^ 1020" by linarith
  have "4 * (2::real) ^ 1020 \<le> 2 ^ 1023" by simp
  with ab_max abpos have n2: "\<bar>a + b\<bar> \<le> 2 ^ 1023" by linarith
  from fl_rel[OF n1 n2] obtain S where S: "fl (a + b) = Fin S" "\<bar>S - (a + b)\<bar> \<le> \<bar>a + b\<bar> / 2 ^ 53"
    by blast
  have "\<bar>a + b\<bar> / 2 ^ 53 \<le> (a + b) * c"
    unfolding c_def by (rule rel53) (use abpos in simp)
  note Sb = rel_bounds[OF S(2) this]
  have S_lo: "(1 - c) * (a + b) \<le> S" and S_hi: "S \<le> (1 + c) * (a + b)"
    by (rule Sb)+
  have c_lo: "0 \<le> 1 - c" and c_hi: "0 \<le> 1 + c" using c0 c1 by simp_all
  have "(1 - c) * ((1 - c) * T) \<le> (1 - c) * (a + b)"
    by (rule mult_left_mono[OF ab_lo c_lo])
  with S_lo have S_lo2: "(1 - c)\<^sup>2 * T \<le> S" by (simp add: power2_eq_square algebra_simps)
  have "(1 + c) * (a + b) \<le> (1 + c) * ((1 + c) * T)"
    by (rule mult_left_mono[OF ab_hi c_hi])
  with S_hi have S_hi2: "S \<le> (1 + c)\<^sup>2 * T" by (simp add: power2_eq_square algebra_simps)
  define L where "L = sqrt T"
  have L0: "0 < L" using T0 by (simp add: L_def)
  have "sqrt ((1 - c)\<^sup>2 * T) = (1 - c) * L"
    using c_lo by (simp add: real_sqrt_mult L_def)
  with real_sqrt_le_mono[OF S_lo2] have q_lo: "(1 - c) * L \<le> sqrt S" by simp
  have "sqrt ((1 + c)\<^sup>2 * T) = (1 + c) * L"
    using c_hi by (simp add: real_sqrt_mult L_def)
  with real_sqrt_le_mono[OF S_hi2] have q_hi: "sqrt S \<le> (1 + c) * L" by simp
  from sqrt_ge_510[OF Tlo] have Llo: "2 powi (- 510) \<le> L" by (simp only: L_def)
  from sqrt_le_511[OF Thi] have Lhi: "L \<le> 2 ^ 511" by (simp only: L_def)
  have Lh: "L / 2 \<le> (1 - c) * L" using L0 c1 by (simp add: field_simps)
  with q_lo Llo have q_min: "2 powi (- 510) / 2 \<le> sqrt S" by linarith
  note powi_1022_le_half_510
  with q_min have m1: "2 powi (- 1022) \<le> \<bar>sqrt S\<bar>" by linarith
  have "0 < L / 2" using L0 by simp
  with Lh q_lo have qpos: "0 < sqrt S" by linarith
  have "(1 + c) * L \<le> 2 * L" using L0 c1 by (simp add: field_simps)
  with q_hi Lhi have "sqrt S \<le> 2 * 2 ^ 511" by linarith
  moreover note two_512_le
  ultimately have m2: "\<bar>sqrt S\<bar> \<le> 2 ^ 1023" using qpos by linarith
  from fl_rel[OF m1 m2] obtain l
    where l: "fl (sqrt S) = Fin l" "\<bar>l - sqrt S\<bar> \<le> \<bar>sqrt S\<bar> / 2 ^ 53"
    by blast
  have "\<bar>sqrt S\<bar> / 2 ^ 53 \<le> sqrt S * c"
    unfolding c_def by (rule rel53) (use qpos in simp)
  note lb = rel_bounds[OF l(2) this]
  have l_lo: "(1 - c) * sqrt S \<le> l" and l_hi: "l \<le> (1 + c) * sqrt S"
    by (rule lb)+
  have "(1 - c) * ((1 - c) * L) \<le> (1 - c) * sqrt S"
    by (rule mult_left_mono[OF q_lo c_lo])
  with l_lo have r_lo: "(1 - c)\<^sup>2 * L \<le> l" by (simp add: power2_eq_square algebra_simps)
  have "(1 + c) * sqrt S \<le> (1 + c) * ((1 + c) * L)"
    by (rule mult_left_mono[OF q_hi c_hi])
  with l_hi have r_hi: "l \<le> (1 + c)\<^sup>2 * L" by (simp add: power2_eq_square algebra_simps)
  have Spos: "0 \<le> S" using qpos by (simp add: less_imp_le real_sqrt_gt_0_iff)
  have "length64 (Vec64 (Fin x) (Fin y)) = Fin l"
    using a(1) b(1) S(1) l(1) Spos by (simp add: length64_def sqrLength64_def)
  with r_lo r_hi Llo show ?thesis
    unfolding L_def T_def c_def by blast
qed

lemma abs_le_sqrt_sum1: "\<bar>x\<bar> \<le> sqrt (x\<^sup>2 + y\<^sup>2)"
  by (rule real_le_rsqrt) simp

lemma abs_le_sqrt_sum2: "\<bar>y\<bar> \<le> sqrt (x\<^sup>2 + y\<^sup>2)"
  by (rule real_le_rsqrt) simp

lemma fdiv_unit:
  assumes "\<bar>x\<bar> \<le> L" "L < 2 * l" "0 < l"
  shows "\<exists>n. fdiv (Fin x) (Fin l) = Fin n \<and> \<bar>n - x / l\<bar> \<le> 1 / 2 ^ 53"
proof -
  have "\<bar>x\<bar> < 2 * l" using assms by linarith
  then have lt: "\<bar>x / l\<bar> < 2" using assms(3) by (simp add: field_simps)
  have "(2::real) \<le> 2 ^ 1023" using power_increasing[of 1 1023 "2::real"] by simp
  with lt have "\<bar>x / l\<bar> \<le> 2 ^ 1023" by linarith
  from fl_bound[OF this] obtain n where n: "fl (x / l) = Fin n" "\<bar>n - x / l\<bar> \<le> quantum (x / l) / 2"
    by blast
  from quantum_lt2[OF lt] have "quantum (x / l) / 2 \<le> 1 / 2 ^ 53" by simp
  with n(2) have "\<bar>n - x / l\<bar> \<le> 1 / 2 ^ 53" by linarith
  with n(1) assms(3) show ?thesis by simp
qed

lemma norm64_zero64: "norm64 zero64 = zero64"
  by (simp add: norm64_def length64_def sqrLength64_def zero64_def fl_0 feq_def Let_def)

lemma norm64_normal:
  assumes lo: "2 powi (- 510) \<le> \<bar>x\<bar> \<or> 2 powi (- 510) \<le> \<bar>y\<bar>"
    and hx: "\<bar>x\<bar> \<le> 2 ^ 510" and hy: "\<bar>y\<bar> \<le> 2 ^ 510"
  shows "\<exists>l nx ny. length64 (Vec64 (Fin x) (Fin y)) = Fin l \<and> 0 < l \<and>
           \<bar>l - sqrt (x\<^sup>2 + y\<^sup>2)\<bar> \<le> sqrt (x\<^sup>2 + y\<^sup>2) / 2 ^ 50 \<and>
           norm64 (Vec64 (Fin x) (Fin y)) = Vec64 (Fin nx) (Fin ny) \<and>
           \<bar>nx - x / l\<bar> \<le> 1 / 2 ^ 53 \<and> \<bar>ny - y / l\<bar> \<le> 1 / 2 ^ 53"
proof -
  define L where "L = sqrt (x\<^sup>2 + y\<^sup>2)"
  from length64_bound[OF lo hx hy] obtain l
    where len: "length64 (Vec64 (Fin x) (Fin y)) = Fin l"
      and l_lo: "(1 - 1 / 2 ^ 52)\<^sup>2 * L \<le> l"
      and l_hi: "l \<le> (1 + 1 / 2 ^ 52)\<^sup>2 * L"
      and Llo: "2 powi (- 510) \<le> L"
    unfolding L_def by blast
  have "0 < (2::real) powi (- 510)" by simp
  with Llo have L0: "0 < L" by linarith
  have k1: "(3 / 4) * L \<le> (1 - 1 / 2 ^ 52)\<^sup>2 * L"
    by (rule mult_right_mono) (use L0 in \<open>simp_all add: power2_eq_square\<close>)
  have k2: "(1 - 1 / 2 ^ 50) * L \<le> (1 - 1 / 2 ^ 52)\<^sup>2 * L"
    by (rule mult_right_mono) (use L0 in \<open>simp_all add: power2_eq_square\<close>)
  have k3: "(1 + 1 / 2 ^ 52)\<^sup>2 * L \<le> (1 + 1 / 2 ^ 50) * L"
    by (rule mult_right_mono) (use L0 in \<open>simp_all add: power2_eq_square\<close>)
  from k1 l_lo L0 have l0: "0 < l" and half: "L < 2 * l" by linarith+
  have "\<bar>l - L\<bar> \<le> L * (1 / 2 ^ 50)"
    by (rule abs_rel) (rule order_trans[OF k2 l_lo], rule order_trans[OF l_hi k3])
  then have err: "\<bar>l - L\<bar> \<le> L / 2 ^ 50" by simp
  from fdiv_unit[OF _ half l0, of x] abs_le_sqrt_sum1[of x y] obtain nx
    where nx: "fdiv (Fin x) (Fin l) = Fin nx" "\<bar>nx - x / l\<bar> \<le> 1 / 2 ^ 53"
    unfolding L_def by blast
  from fdiv_unit[OF _ half l0, of y] abs_le_sqrt_sum2[of y x] obtain ny
    where ny: "fdiv (Fin y) (Fin l) = Fin ny" "\<bar>ny - y / l\<bar> \<le> 1 / 2 ^ 53"
    unfolding L_def by blast
  have "norm64 (Vec64 (Fin x) (Fin y)) = Vec64 (Fin nx) (Fin ny)"
    using len l0 nx(1) ny(1) by (simp add: norm64_def feq_def Let_def)
  with len l0 err nx(2) ny(2) show ?thesis unfolding L_def by blast
qed


text \<open>
  Claim C9, as the code has it. \<open>norm\<close> has one branch, the test of the length against
  zero, and no failing operation; it maps the zero vector to the zero vector. For a
  vector whose larger coordinate has a magnitude between \<open>2\<^sup>-\<^sup>5\<^sup>1\<^sup>0\<close> and \<open>2\<^sup>5\<^sup>1\<^sup>0\<close> the
  squares neither underflow nor overflow: the computed length \<open>l\<close> is a positive
  binary64 value within a relative error of \<open>2\<^sup>-\<^sup>5\<^sup>0\<close> of the Euclidean length, and
  the result is the vector divided by \<open>l\<close>, each coordinate rounded once (an error of
  \<open>2\<^sup>-\<^sup>5\<^sup>3\<close> at most).
\<close>

theorem norm64_total:
  "norm64 zero64 = zero64 \<and>
   ((2 powi (- 510) \<le> \<bar>x\<bar> \<or> 2 powi (- 510) \<le> \<bar>y\<bar>) \<and> \<bar>x\<bar> \<le> 2 ^ 510 \<and> \<bar>y\<bar> \<le> 2 ^ 510 \<longrightarrow>
      (\<exists>l nx ny. length64 (Vec64 (Fin x) (Fin y)) = Fin l \<and> 0 < l \<and>
           \<bar>l - sqrt (x\<^sup>2 + y\<^sup>2)\<bar> \<le> sqrt (x\<^sup>2 + y\<^sup>2) / 2 ^ 50 \<and>
           norm64 (Vec64 (Fin x) (Fin y)) = Vec64 (Fin nx) (Fin ny) \<and>
           \<bar>nx - x / l\<bar> \<le> 1 / 2 ^ 53 \<and> \<bar>ny - y / l\<bar> \<le> 1 / 2 ^ 53))"
  using norm64_zero64 norm64_normal[of x y] by blast

lemma sqrt_25: "sqrt 25 = 5"
proof -
  have "sqrt 25 = sqrt (5\<^sup>2)" by simp
  then show ?thesis unfolding real_sqrt_abs by simp
qed

lemma length64_3_4: "length64 (Vec64 (Fin 3) (Fin 4)) = Fin 5"
  by (simp add: length64_def sqrLength64_def sqrt_25 fl_eval)

lemma norm64_3_4:
  "norm64 (Vec64 (Fin 3) (Fin 4)) =
     Vec64 (Fin (5404319552844595 / 2 ^ 53)) (Fin (3602879701896397 / 2 ^ 52))"
  by (simp add: norm64_def length64_3_4 feq_def fl_eval)

theorem norm64_total_witness:
  "2 powi (- 510) \<le> \<bar>3::real\<bar> \<and> \<bar>3::real\<bar> \<le> 2 ^ 510 \<and> \<bar>4::real\<bar> \<le> 2 ^ 510 \<and>
   length64 (Vec64 (Fin 3) (Fin 4)) = Fin 5 \<and>
   \<bar>5 - sqrt (3\<^sup>2 + 4\<^sup>2)\<bar> \<le> sqrt (3\<^sup>2 + 4\<^sup>2) / 2 ^ 50 \<and>
   norm64 (Vec64 (Fin 3) (Fin 4)) =
     Vec64 (Fin (5404319552844595 / 2 ^ 53)) (Fin (3602879701896397 / 2 ^ 52)) \<and>
   \<bar>5404319552844595 / 2 ^ 53 - 3 / 5\<bar> \<le> 1 / (2 ^ 53 :: real)"
proof -
  have "(2::real) powi (- 510) \<le> 2 powi 0" by (rule power_int_increasing) simp_all
  then have h1: "2 powi (- 510) \<le> \<bar>3::real\<bar>" by simp
  have "(2::real) ^ 2 \<le> 2 ^ 510" by (rule power_increasing) simp_all
  then have h2: "\<bar>3::real\<bar> \<le> 2 ^ 510" and h3: "\<bar>4::real\<bar> \<le> 2 ^ 510" by simp_all
  from norm64_total[of 3 4] h1 h2 h3 obtain l nx ny
    where l: "length64 (Vec64 (Fin 3) (Fin 4)) = Fin l"
      and e: "\<bar>l - sqrt (3\<^sup>2 + 4\<^sup>2)\<bar> \<le> sqrt (3\<^sup>2 + 4\<^sup>2) / 2 ^ 50"
      and n: "norm64 (Vec64 (Fin 3) (Fin 4)) = Vec64 (Fin nx) (Fin ny)"
      and ex: "\<bar>nx - 3 / l\<bar> \<le> 1 / 2 ^ 53"
    by blast
  from l have l5: "l = 5" by (simp add: length64_3_4)
  from n have nx: "nx = 5404319552844595 / 2 ^ 53" by (simp add: norm64_3_4)
  from h1 h2 h3 length64_3_4 e[unfolded l5] norm64_3_4 ex[unfolded l5 nx]
  show ?thesis by blast
qed


text \<open>
  The claim as stated fails for short and for long vectors: the square of \<open>2\<^sup>-\<^sup>6\<^sup>0\<^sup>0\<close>
  underflows to zero and the square of \<open>2\<^sup>6\<^sup>0\<^sup>0\<close> overflows to infinity, and in both cases
  \<open>norm\<close> returns the zero vector for a vector that is not zero.
\<close>

lemma norm64_tiny:
  assumes "\<bar>x\<bar> \<le> 2 powi (- 538)"
  shows "norm64 (Vec64 (Fin x) (Fin 0)) = zero64"
proof -
  have "(2::real) powi (- 538) * 2 powi (- 538) = 2 powi (- 538 + - 538)"
    by (rule power_int_add[symmetric]) simp
  moreover have "(- 538::int) + - 538 = - 1076" by simp
  ultimately have sq: "(2::real) powi (- 538) * 2 powi (- 538) = 2 powi (- 1076)"
    by (simp only:)
  have "\<bar>x * x\<bar> = \<bar>x\<bar> * \<bar>x\<bar>" by (simp add: abs_mult)
  also have "\<dots> \<le> 2 powi (- 538) * 2 powi (- 538)"
    by (rule mult_mono) (use assms in simp_all)
  also have "\<dots> \<le> 2 powi (- 1075)"
    unfolding sq by (rule power_int_increasing) simp_all
  finally have "fl (x * x) = Fin 0" by (rule fl_underflow)
  then show ?thesis
    by (simp add: norm64_def length64_def sqrLength64_def zero64_def fl_0 feq_def Let_def)
qed

lemma norm64_huge:
  assumes "2 ^ 512 \<le> \<bar>x\<bar>"
  shows "norm64 (Vec64 (Fin x) (Fin 0)) = zero64"
proof -
  have "(2::real) ^ 1024 = 2 ^ 512 * 2 ^ 512" by (simp only: power_add[symmetric]) simp
  also have "\<dots> \<le> \<bar>x\<bar> * \<bar>x\<bar>"
    by (rule mult_mono) (use assms in simp_all)
  also have "\<dots> = x * x" by (simp add: abs_mult[symmetric])
  finally have "fl (x * x) = PInf" by (rule fl_overflow)
  then show ?thesis
    by (simp add: norm64_def length64_def sqrLength64_def zero64_def fl_0 feq_def Let_def)
qed

theorem norm64_nonzero_to_zero:
  "is_double (2 powi (- 600)) \<and>
   Vec64 (Fin (2 powi (- 600))) (Fin 0) \<noteq> zero64 \<and>
   norm64 (Vec64 (Fin (2 powi (- 600))) (Fin 0)) = zero64 \<and>
   is_double (2 powi 600) \<and>
   Vec64 (Fin (2 powi 600)) (Fin 0) \<noteq> zero64 \<and>
   norm64 (Vec64 (Fin (2 powi 600)) (Fin 0)) = zero64"
proof -
  have d1: "is_double (2 powi (- 600))" by (rule is_double_powi) simp_all
  have d2: "is_double (2 powi 600)" by (rule is_double_powi) simp_all
  have n1: "Vec64 (Fin (2 powi (- 600))) (Fin 0) \<noteq> zero64"
    and n2: "Vec64 (Fin (2 powi 600)) (Fin 0) \<noteq> zero64"
    by (simp_all add: zero64_def)
  have "\<bar>(2::real) powi (- 600)\<bar> = 2 powi (- 600)" by simp
  also have "\<dots> \<le> 2 powi (- 538)" by (rule power_int_increasing) simp_all
  finally have z1: "norm64 (Vec64 (Fin (2 powi (- 600))) (Fin 0)) = zero64"
    by (rule norm64_tiny)
  have "(2::real) ^ 512 = 2 powi 512" by simp
  also have "\<dots> \<le> 2 powi 600" by (rule power_int_increasing) simp_all
  also have "\<dots> = \<bar>(2::real) powi 600\<bar>" by simp
  finally have z2: "norm64 (Vec64 (Fin (2 powi 600)) (Fin 0)) = zero64"
    by (rule norm64_huge)
  from d1 n1 z1 d2 n2 z2 show ?thesis by blast
qed


section \<open>The ray stepper: snapping\<close>

lemma EPS_pos: "0 < EPS" and EPS_lt_1: "EPS < 1"
  by (simp_all add: EPS_def)

lemma snap_pos: "0 < dx \<Longrightarrow> snap x dx = of_int \<lceil>x + EPS\<rceil>"
  and snap_neg: "dx < 0 \<Longrightarrow> snap x dx = of_int \<lfloor>x - EPS\<rfloor>"
  and snap_zero: "snap x 0 = x"
  by (simp_all add: snap_def)

lemma snap_gt: "0 < dx \<Longrightarrow> x + EPS \<le> snap x dx"
  by (simp add: snap_pos)

lemma snap_lt: "dx < 0 \<Longrightarrow> snap x dx \<le> x - EPS"
  by (simp add: snap_neg)

lemma snap_integer: "dx \<noteq> 0 \<Longrightarrow> \<exists>n::int. snap x dx = of_int n"
  by (cases "0 < dx") (auto simp: snap_def)

lemma snap_moves_EPS: "dx \<noteq> 0 \<Longrightarrow> EPS \<le> \<bar>snap x dx - x\<bar>"
  using snap_gt[of dx x] snap_lt[of dx x] by (cases "0 < dx") auto

lemma snap_ratio_pos: "dx \<noteq> 0 \<Longrightarrow> 0 < (snap x dx - x) / dx"
  using snap_gt[of dx x] snap_lt[of dx x] EPS_pos
  by (cases "dx > 0") (auto simp: zero_less_divide_iff)

section \<open>The ray stepper: the branches of rayStep\<close>

lemma rayStep_vertical_ray:
  "vx p2 = vx p1 \<Longrightarrow> rayStep p1 p2 = Vector2 (vx p2) (snap (vy p2) (vy p2 - vy p1))"
  by (simp add: rayStep_def sub_def)

lemma rayStep_horizontal_ray:
  "vx p2 \<noteq> vx p1 \<Longrightarrow> vy p2 = vy p1 \<Longrightarrow>
   rayStep p1 p2 = Vector2 (snap (vx p2) (vx p2 - vx p1)) (vy p2)"
  by (simp add: rayStep_def sub_def)

lemma rayStep_oblique:
  "vx p2 \<noteq> vx p1 \<Longrightarrow> vy p2 \<noteq> vy p1 \<Longrightarrow>
   rayStep p1 p2 =
     (if sqrDistanceTo p2 (vertical_candidate p1 p2) > sqrDistanceTo p2 (horizontal_candidate p1 p2)
      then horizontal_candidate p1 p2 else vertical_candidate p1 p2)"
  by (simp add: rayStep_def vertical_candidate_def horizontal_candidate_def sub_def Let_def)

lemma line_through_V:
  fixes dx dy x1 y1 s :: real
  assumes "dx \<noteq> 0"
  shows "dy / dx * s + (y1 - dy / dx * x1) = (y1 + dy) + dy * ((s - (x1 + dx)) / dx)"
  using assms by (simp add: field_simps)

lemma line_through_H:
  fixes dx dy x1 y1 s :: real
  assumes "dx \<noteq> 0" "dy \<noteq> 0"
  shows "(s - (y1 - dy / dx * x1)) / (dy / dx) = (x1 + dx) + dx * ((s - (y1 + dy)) / dy)"
  using assms by (simp add: field_simps)

lemma vertical_candidate_eq:
  assumes "vx p2 \<noteq> vx p1"
  shows "vertical_candidate p1 p2 = Vector2 (snap (vx p2) (vx p2 - vx p1))
     (vy p2 + (vy p2 - vy p1) * ((snap (vx p2) (vx p2 - vx p1) - vx p2) / (vx p2 - vx p1)))"
  using assms line_through_V[of "vx p2 - vx p1" "vy p2 - vy p1" _ "vy p1" "vx p1"]
  by (simp add: vertical_candidate_def sub_def Let_def)

lemma horizontal_candidate_eq:
  assumes "vx p2 \<noteq> vx p1" "vy p2 \<noteq> vy p1"
  shows "horizontal_candidate p1 p2 = Vector2
     (vx p2 + (vx p2 - vx p1) * ((snap (vy p2) (vy p2 - vy p1) - vy p2) / (vy p2 - vy p1)))
     (snap (vy p2) (vy p2 - vy p1))"
  using assms line_through_H[of "vx p2 - vx p1" "vy p2 - vy p1" _ "vy p1" "vx p1"]
  by (simp add: horizontal_candidate_def sub_def Let_def)

lemma rayStep_snapped:
  assumes "p1 \<noteq> p2"
  shows "(vx (sub p2 p1) \<noteq> 0 \<and> vx (rayStep p1 p2) = snap (vx p2) (vx (sub p2 p1))) \<or>
         (vy (sub p2 p1) \<noteq> 0 \<and> vy (rayStep p1 p2) = snap (vy p2) (vy (sub p2 p1)))"
proof -
  let ?dx = "vx p2 - vx p1" and ?dy = "vy p2 - vy p1"
  consider (v) "?dx = 0" "?dy \<noteq> 0" | (h) "?dx \<noteq> 0" "?dy = 0" | (o) "?dx \<noteq> 0" "?dy \<noteq> 0"
    using assms by (cases p1; cases p2) auto
  then show ?thesis
  proof cases
    case v
    then show ?thesis by (simp add: rayStep_vertical_ray sub_def)
  next
    case h
    then show ?thesis by (simp add: rayStep_horizontal_ray sub_def)
  next
    case o
    then have ne: "vx p2 \<noteq> vx p1" "vy p2 \<noteq> vy p1" by simp_all
    show ?thesis
    proof (cases "sqrDistanceTo p2 (vertical_candidate p1 p2) > sqrDistanceTo p2 (horizontal_candidate p1 p2)")
      case True
      then have "rayStep p1 p2 = horizontal_candidate p1 p2"
        by (simp add: rayStep_oblique[OF ne])
      then show ?thesis
        using o by (simp add: horizontal_candidate_eq[OF ne] sub_def)
    next
      case False
      then have "rayStep p1 p2 = vertical_candidate p1 p2"
        by (simp add: rayStep_oblique[OF ne])
      then show ?thesis
        using o by (simp add: vertical_candidate_eq[OF ne(1)] sub_def)
    qed
  qed
qed

text \<open>
  Claim C3. For points \<open>p1 \<noteq> p2\<close> the point of \<open>rayStep\<close> is on a grid line of the axis
  it snapped: its \<open>x\<close> is \<open>snap\<close> of the tip's \<open>x\<close> (the ray has a horizontal part), an
  integer, or its \<open>y\<close> is \<open>snap\<close> of the tip's \<open>y\<close> (the ray has a vertical part), an
  integer. The distance of that coordinate to the grid line is zero, so below \<open>EPS\<close>.
\<close>

theorem rayStep_on_grid_line:
  assumes "p1 \<noteq> p2"
  shows "(vx (sub p2 p1) \<noteq> 0 \<and> vx (rayStep p1 p2) = snap (vx p2) (vx (sub p2 p1)) \<and>
          (\<exists>n::int. vx (rayStep p1 p2) = of_int n \<and> \<bar>vx (rayStep p1 p2) - of_int n\<bar> < EPS)) \<or>
         (vy (sub p2 p1) \<noteq> 0 \<and> vy (rayStep p1 p2) = snap (vy p2) (vy (sub p2 p1)) \<and>
          (\<exists>n::int. vy (rayStep p1 p2) = of_int n \<and> \<bar>vy (rayStep p1 p2) - of_int n\<bar> < EPS))"
proof -
  have I: "\<exists>n::int. snap x dx = of_int n \<and> \<bar>snap x dx - of_int n\<bar> < EPS" if "dx \<noteq> 0" for x dx
    using snap_integer[OF that, of x] EPS_pos by auto
  from rayStep_snapped[OF assms] show ?thesis
  proof
    assume "vx (sub p2 p1) \<noteq> 0 \<and> vx (rayStep p1 p2) = snap (vx p2) (vx (sub p2 p1))"
    with I[of "vx (sub p2 p1)" "vx p2"] show ?thesis by simp
  next
    assume "vy (sub p2 p1) \<noteq> 0 \<and> vy (rayStep p1 p2) = snap (vy p2) (vy (sub p2 p1))"
    with I[of "vy (sub p2 p1)" "vy p2"] show ?thesis by simp
  qed
qed

theorem rayStep_on_grid_line_witness:
  "Vector2 (1/2) (1/2) \<noteq> Vector2 (3/4) (1/2) \<and>
   rayStep (Vector2 (1/2) (1/2)) (Vector2 (3/4) (1/2)) = Vector2 1 (1/2) \<and>
   (\<exists>n::int. vx (rayStep (Vector2 (1/2) (1/2)) (Vector2 (3/4) (1/2))) = of_int n)"
proof -
  have ne: "Vector2 (1/2) (1/2) \<noteq> Vector2 (3/4) (1/2)" by simp
  have r: "rayStep (Vector2 (1/2) (1/2)) (Vector2 (3/4) (1/2)) = Vector2 1 (1/2)"
    by (simp add: rayStep_def sub_def snap_def EPS_def Let_def)
  from rayStep_on_grid_line[OF ne] r show ?thesis
    by (auto simp: sub_def)
qed

section \<open>Every step goes forward on the ray\<close>

lemma rayStep_forward:
  assumes "p1 \<noteq> p2"
  shows "\<exists>t>0. rayStep p1 p2 = add p2 (scale (sub p2 p1) t)"
proof -
  let ?dx = "vx p2 - vx p1" and ?dy = "vy p2 - vy p1"
  let ?tx = "(snap (vx p2) ?dx - vx p2) / ?dx" and ?ty = "(snap (vy p2) ?dy - vy p2) / ?dy"
  consider (v) "?dx = 0" "?dy \<noteq> 0" | (h) "?dx \<noteq> 0" "?dy = 0" | (o) "?dx \<noteq> 0" "?dy \<noteq> 0"
    using assms by (cases p1; cases p2) auto
  then show ?thesis
  proof cases
    case v
    then have "rayStep p1 p2 = add p2 (scale (sub p2 p1) ?ty)"
      by (simp add: rayStep_vertical_ray add_def scale_def sub_def)
    with snap_ratio_pos[OF v(2)] show ?thesis by blast
  next
    case h
    then have "rayStep p1 p2 = add p2 (scale (sub p2 p1) ?tx)"
      by (simp add: rayStep_horizontal_ray add_def scale_def sub_def)
    with snap_ratio_pos[OF h(1)] show ?thesis by blast
  next
    case o
    then have V: "vertical_candidate p1 p2 = add p2 (scale (sub p2 p1) ?tx)"
      by (simp add: vertical_candidate_eq add_def scale_def sub_def)
    from o have H: "horizontal_candidate p1 p2 = add p2 (scale (sub p2 p1) ?ty)"
      by (simp add: horizontal_candidate_eq add_def scale_def sub_def)
    from o have "rayStep p1 p2 = vertical_candidate p1 p2 \<or> rayStep p1 p2 = horizontal_candidate p1 p2"
      by (simp add: rayStep_oblique)
    with V H snap_ratio_pos[OF o(1)] snap_ratio_pos[OF o(2)] show ?thesis by metis
  qed
qed




section \<open>The measure of progress\<close>













section \<open>The ray caster: the loop and its budgeted form\<close>



text \<open>The lookup in the loop never throws: the cell is a pair of integers inside the scene.\<close>

lemma sceneSize_height: "vy (sceneSize scene) = real (length scene)"
  by (simp add: sceneSize_def)

lemma cellAt_hittingCell:
  assumes "insideScene scene (hittingCell p1 p2)"
  shows "\<exists>cell. cellAt scene (hittingCell p1 p2) = Inr cell"
  using assms
  by (simp add: insideScene_def sceneSize_height cellAt_def at_index_def hittingCell_def Let_def)

section \<open>Progress of the ray caster\<close>




text \<open>A step moves the tip by \<open>EPS\<close> at least, and by exactly \<open>EPS\<close> at some tips.\<close>

lemma rayStep_moves_EPS:
  assumes "p1 \<noteq> p2"
  shows "minStepSize \<le> distanceTo p2 (rayStep p1 p2)"
proof -
  let ?r = "rayStep p1 p2"
  have ax: "\<bar>a\<bar> \<le> sqrt (a * a + b * b)" and ay: "\<bar>b\<bar> \<le> sqrt (a * a + b * b)" for a b :: real
    by (rule real_le_rsqrt, simp add: power2_eq_square)+
  from rayStep_snapped[OF assms]
  have "EPS \<le> \<bar>vx ?r - vx p2\<bar> \<or> EPS \<le> \<bar>vy ?r - vy p2\<bar>"
    using snap_moves_EPS[of "vx (sub p2 p1)" "vx p2"] snap_moves_EPS[of "vy (sub p2 p1)" "vy p2"]
    by auto
  then show ?thesis
    using ax[of "vx ?r - vx p2" "vy ?r - vy p2"] ay[of "vy ?r - vy p2" "vx ?r - vx p2"]
    by (auto simp: minStepSize_def distanceTo_def length_vec_def sqrLength_def sub_def)
qed

lemma rayStep_EPS_attained:
  "distanceTo (Vector2 (1 - EPS) 0) (rayStep (Vector2 0 0) (Vector2 (1 - EPS) 0)) = minStepSize"
proof -
  have "rayStep (Vector2 0 0) (Vector2 (1 - EPS) 0) = Vector2 1 0"
    by (simp add: rayStep_def sub_def snap_def EPS_def Let_def)
  moreover have "sqrt (EPS * EPS) = EPS"
    using EPS_pos by (simp add: real_sqrt_mult)
  ultimately show ?thesis
    by (simp add: distanceTo_def length_vec_def sqrLength_def sub_def minStepSize_def)
qed




section \<open>A scene of one empty cell\<close>

lemma MIN_VALUE_le_1: "MIN_VALUE \<le> 1" and MIN_VALUE_pos: "0 < MIN_VALUE"
  by (simp_all add: MIN_VALUE_def)

lemma sceneSize_single: "sceneSize [[Empty]] = Vector2 1 1"
  using MIN_VALUE_le_1 by (simp add: sceneSize_def)

lemma insideScene_single:
  "insideScene [[Empty]] p \<longleftrightarrow> 0 \<le> vx p \<and> vx p < 1 \<and> 0 \<le> vy p \<and> vy p < 1"
  by (auto simp: insideScene_def sceneSize_single)

lemma castRay_single_east:
  "castRay [[Empty]] (Vector2 (1/2) (1/2)) (Vector2 (3/2) (1/2)) = Some (Inr (Vector2 12 (1/2)))"
  unfolding castRay_def
  by (simp add: castRay_loop.simps insideScene_single hittingCell_def rayStep_def snap_def
      sub_def sqrDistanceTo_def sqrLength_def EPS_def FAR_CLIPPING_PLANE_def Let_def)

section \<open>Binary64: the tie of the two candidates\<close>

lemma flt_irrefl: "\<not> flt a a"
  by (cases a) simp_all

lemma rayStep64_nearer:
  assumes "\<not> feq (fx (sub64 p2 p1)) (Fin 0)"
    and "\<not> feq (fdiv (fy (sub64 p2 p1)) (fx (sub64 p2 p1))) (Fin 0)"
    and "fgt (sqrDistanceTo64 p2 (vertical_candidate64 p1 p2))
             (sqrDistanceTo64 p2 (horizontal_candidate64 p1 p2))"
  shows "rayStep64 p1 p2 = horizontal_candidate64 p1 p2"
  using assms
  by (simp add: rayStep64_def vertical_candidate64_def horizontal_candidate64_def Let_def)


text \<open>
  Claim C10. In binary64, when the ray is neither vertical nor horizontal as the code
  tests it (\<^verbatim>\<open>d.x !== 0\<close> and \<^verbatim>\<open>k !== 0\<close>) and the computed squared distances of the two
  candidates from \<open>p2\<close> are equal, \<open>rayStep\<close> returns the candidate on the vertical grid
  line: the comparison is strict. The example after the theorem is a tie of two
  different candidates, \<open>(1, 4)\<close> on the vertical line and \<open>(0.9999999999999999, 4)\<close> on
  the horizontal line, both at the computed squared distance \<open>1.1953125\<close> from the tip
  \<open>(0.4375, 3.0625)\<close> of the ray from \<open>(0.25, 2.75)\<close>.
\<close>

theorem rayStep64_tie_vertical:
  assumes "\<not> feq (fx (sub64 p2 p1)) (Fin 0)"
    and "\<not> feq (fdiv (fy (sub64 p2 p1)) (fx (sub64 p2 p1))) (Fin 0)"
    and "sqrDistanceTo64 p2 (vertical_candidate64 p1 p2) =
         sqrDistanceTo64 p2 (horizontal_candidate64 p1 p2)"
  shows "rayStep64 p1 p2 = vertical_candidate64 p1 p2"
  using assms flt_irrefl[of "sqrDistanceTo64 p2 (horizontal_candidate64 p1 p2)"]
  by (simp add: rayStep64_def vertical_candidate64_def horizontal_candidate64_def Let_def fgt_def)

lemma tie_sub: "sub64 (Vec64 (Fin (7/16)) (Fin (49/16))) (Vec64 (Fin (1/4)) (Fin (11/4)))
    = Vec64 (Fin (3/16)) (Fin (5/16))"
  by (simp add: fl_eval v64_eval)

lemma tie_k: "fl (5 / 3) = Fin (7505999378950827 / 2 ^ 52)"
  by (simp add: fl_eval)

lemma tie_V: "vertical_candidate64 (Vec64 (Fin (1/4)) (Fin (11/4))) (Vec64 (Fin (7/16)) (Fin (49/16)))
    = Vec64 (Fin 1) (Fin 4)"
  by (simp add: vertical_candidate64_def fl_eval v64_eval)

lemma tie_H: "horizontal_candidate64 (Vec64 (Fin (1/4)) (Fin (11/4))) (Vec64 (Fin (7/16)) (Fin (49/16)))
    = Vec64 (Fin (9007199254740991 / 2 ^ 53)) (Fin 4)"
  by (simp add: horizontal_candidate64_def fl_eval v64_eval)

lemma tie_dV: "sqrDistanceTo64 (Vec64 (Fin (7/16)) (Fin (49/16))) (Vec64 (Fin 1) (Fin 4)) = Fin (153 / 128)"
  by (simp add: fl_eval v64_eval)

lemma tie_dH: "sqrDistanceTo64 (Vec64 (Fin (7/16)) (Fin (49/16))) (Vec64 (Fin (9007199254740991 / 2 ^ 53)) (Fin 4)) = Fin (153 / 128)"
  by (simp add: fl_eval v64_eval)

theorem rayStep64_tie_vertical_witness:
  "\<not> feq (fx (sub64 (Vec64 (Fin (7/16)) (Fin (49/16))) (Vec64 (Fin (1/4)) (Fin (11/4))))) (Fin 0) \<and>
   \<not> feq (fdiv (fy (sub64 (Vec64 (Fin (7/16)) (Fin (49/16))) (Vec64 (Fin (1/4)) (Fin (11/4)))))
                (fx (sub64 (Vec64 (Fin (7/16)) (Fin (49/16))) (Vec64 (Fin (1/4)) (Fin (11/4)))))) (Fin 0) \<and>
   vertical_candidate64 (Vec64 (Fin (1/4)) (Fin (11/4))) (Vec64 (Fin (7/16)) (Fin (49/16)))
     = Vec64 (Fin 1) (Fin 4) \<and>
   horizontal_candidate64 (Vec64 (Fin (1/4)) (Fin (11/4))) (Vec64 (Fin (7/16)) (Fin (49/16)))
     = Vec64 (Fin (9007199254740991 / 2 ^ 53)) (Fin 4) \<and>
   vertical_candidate64 (Vec64 (Fin (1/4)) (Fin (11/4))) (Vec64 (Fin (7/16)) (Fin (49/16))) \<noteq>
   horizontal_candidate64 (Vec64 (Fin (1/4)) (Fin (11/4))) (Vec64 (Fin (7/16)) (Fin (49/16))) \<and>
   sqrDistanceTo64 (Vec64 (Fin (7/16)) (Fin (49/16)))
     (vertical_candidate64 (Vec64 (Fin (1/4)) (Fin (11/4))) (Vec64 (Fin (7/16)) (Fin (49/16)))) =
   sqrDistanceTo64 (Vec64 (Fin (7/16)) (Fin (49/16)))
     (horizontal_candidate64 (Vec64 (Fin (1/4)) (Fin (11/4))) (Vec64 (Fin (7/16)) (Fin (49/16)))) \<and>
   rayStep64 (Vec64 (Fin (1/4)) (Fin (11/4))) (Vec64 (Fin (7/16)) (Fin (49/16))) = Vec64 (Fin 1) (Fin 4)"
proof -
  let ?p1 = "Vec64 (Fin (1/4)) (Fin (11/4))" and ?p2 = "Vec64 (Fin (7/16)) (Fin (49/16))"
  have a: "\<not> feq (fx (sub64 ?p2 ?p1)) (Fin 0)"
    by (simp add: tie_sub feq_def)
  have b: "\<not> feq (fdiv (fy (sub64 ?p2 ?p1)) (fx (sub64 ?p2 ?p1))) (Fin 0)"
    by (simp add: tie_sub tie_k feq_def)
  have c: "sqrDistanceTo64 ?p2 (vertical_candidate64 ?p1 ?p2) =
           sqrDistanceTo64 ?p2 (horizontal_candidate64 ?p1 ?p2)"
    by (simp only: tie_V tie_H tie_dV tie_dH)
  have d: "vertical_candidate64 ?p1 ?p2 \<noteq> horizontal_candidate64 ?p1 ?p2"
    by (simp add: tie_V tie_H)
  from rayStep64_tie_vertical[OF a b c] a b c d show ?thesis
    by (simp only: tie_V tie_H simp_thms)
qed


section \<open>The ray caster terminates\<close>




section \<open>Where the ray stops\<close>

lemma ray_pair_0: "ray_pair 0 pp = pp"
  by (simp add: ray_pair_def)

lemma ray_pair_Suc: "ray_pair (Suc n) (p1, p2) = ray_pair n (p2, rayStep p1 p2)"
  by (simp add: ray_pair_def funpow_swap1)

lemma castRay_loop_stop:
  assumes "castRay_stops scene start (p1, p2)"
  shows "castRay_loop scene start p1 p2 = Some (Inr p2)"
  using assms cellAt_hittingCell[of scene p1 p2]
  by (subst castRay_loop.simps) (auto simp: castRay_stops_def Let_def split: sum.splits)

lemma castRay_loop_step:
  assumes "\<not> castRay_stops scene start (p1, p2)"
  shows "castRay_loop scene start p1 p2 = castRay_loop scene start p2 (rayStep p1 p2)"
  using assms cellAt_hittingCell[of scene p1 p2]
  by (subst castRay_loop.simps) (auto simp: castRay_stops_def Let_def split: sum.splits)

lemma castRay_loop_first_stop:
  assumes "castRay_stops scene start (ray_pair n (p1, p2))"
    and "\<forall>i<n. \<not> castRay_stops scene start (ray_pair i (p1, p2))"
  shows "castRay_loop scene start p1 p2 = Some (Inr (snd (ray_pair n (p1, p2))))"
  using assms
proof (induction n arbitrary: p1 p2)
  case 0
  then show ?case by (simp add: ray_pair_0 castRay_loop_stop)
next
  case (Suc n)
  from Suc.prems(2) have "\<not> castRay_stops scene start (ray_pair 0 (p1, p2))" by blast
  then have step: "castRay_loop scene start p1 p2 = castRay_loop scene start p2 (rayStep p1 p2)"
    by (simp add: ray_pair_0 castRay_loop_step)
  have "\<forall>i<n. \<not> castRay_stops scene start (ray_pair i (p2, rayStep p1 p2))"
    using Suc.prems(2) by (auto simp flip: ray_pair_Suc)
  with Suc.IH[of p2 "rayStep p1 p2"] Suc.prems(1) show ?case
    by (simp add: step ray_pair_Suc)
qed

lemma castRay_loop_result:
  assumes "castRay_loop scene start p1 p2 = Some r"
  shows "\<exists>n. r = Inr (snd (ray_pair n (p1, p2))) \<and>
           castRay_stops scene start (ray_pair n (p1, p2)) \<and>
           (\<forall>i<n. \<not> castRay_stops scene start (ray_pair i (p1, p2)))"
proof (rule castRay_loop.raw_induct[where P = "\<lambda>sc st a b y.
     \<exists>n. y = Inr (snd (ray_pair n (a, b))) \<and> castRay_stops sc st (ray_pair n (a, b)) \<and>
       (\<forall>i<n. \<not> castRay_stops sc st (ray_pair i (a, b)))", OF _ assms])
  fix loop :: "Scene \<Rightarrow> Vector2 \<Rightarrow> Vector2 \<Rightarrow> Vector2 \<Rightarrow> (error + Vector2) option"
    and sc st a b y
  assume IH: "\<And>sc st a b y. loop sc st a b = Some y \<Longrightarrow>
      \<exists>n. y = Inr (snd (ray_pair n (a, b))) \<and> castRay_stops sc st (ray_pair n (a, b)) \<and>
        (\<forall>i<n. \<not> castRay_stops sc st (ray_pair i (a, b)))"
    and eq: "(if sqrDistanceTo st a < FAR_CLIPPING_PLANE\<^sup>2
        then let c = hittingCell a b
             in if insideScene sc c
                then case cellAt sc c of Inl e \<Rightarrow> Some (Inl e)
                     | Inr cell \<Rightarrow>
                         if cell \<noteq> Some Empty then Some (Inr b)
                         else loop sc st b (rayStep a b)
                else loop sc st b (rayStep a b)
        else Some (Inr b)) = Some y"
  show "\<exists>n. y = Inr (snd (ray_pair n (a, b))) \<and> castRay_stops sc st (ray_pair n (a, b)) \<and>
        (\<forall>i<n. \<not> castRay_stops sc st (ray_pair i (a, b)))"
  proof (cases "castRay_stops sc st (a, b)")
    case True
    with eq cellAt_hittingCell[of sc a b] have "y = Inr b"
      by (auto simp: castRay_stops_def Let_def split: sum.splits if_splits)
    with True show ?thesis
      by (intro exI[of _ 0]) (simp add: ray_pair_0)
  next
    case False
    with eq cellAt_hittingCell[of sc a b] have "loop sc st b (rayStep a b) = Some y"
      by (auto simp: castRay_stops_def Let_def split: sum.splits if_splits)
    from IH[OF this] obtain n where n: "y = Inr (snd (ray_pair n (b, rayStep a b)))"
      "castRay_stops sc st (ray_pair n (b, rayStep a b))"
      "\<forall>i<n. \<not> castRay_stops sc st (ray_pair i (b, rayStep a b))" by blast
    have "\<not> castRay_stops sc st (ray_pair i (a, b))" if "i < Suc n" for i
    proof (cases i)
      case 0
      with False show ?thesis by (simp add: ray_pair_0)
    next
      case (Suc j)
      with that n(3) show ?thesis by (simp add: ray_pair_Suc)
    qed
    with n(1,2) show ?thesis
      by (intro exI[of _ "Suc n"]) (simp add: ray_pair_Suc)
  qed
qed

text \<open>
  Claim C1, as the code has it. \<open>castRay\<close> computes \<open>hittingCell p1 p2\<close> for the pair it
  holds and returns the tip \<open>p2\<close> of the first pair at which the loop stops: the
  previous tip \<open>p1\<close> is at the far clipping distance from the origin or beyond, or the
  cell is inside the scene and not \<^verbatim>\<open>null\<close>. A tip in an occupied cell of the scene is
  returned at once. A tip whose cell is outside the scene does not stop the ray: the
  loop goes on with the next pair.
\<close>

theorem castRay_first_stop:
  "(castRay scene p1 p2 = Some r \<longleftrightarrow>
      (\<exists>n. r = Inr (snd (ray_pair n (p1, p2))) \<and>
         castRay_stops scene p1 (ray_pair n (p1, p2)) \<and>
         (\<forall>i<n. \<not> castRay_stops scene p1 (ray_pair i (p1, p2))))) \<and>
   (insideScene scene (hittingCell p1 p2) \<and> cellAt scene (hittingCell p1 p2) \<noteq> Inr (Some Empty)
      \<longrightarrow> castRay scene p1 p2 = Some (Inr p2)) \<and>
   (\<not> insideScene scene (hittingCell p1 p2)
      \<longrightarrow> castRay scene p1 p2 = castRay_loop scene p1 p2 (rayStep p1 p2))"
proof (intro conjI impI iffI)
  assume "castRay scene p1 p2 = Some r"
  then show "\<exists>n. r = Inr (snd (ray_pair n (p1, p2))) \<and>
         castRay_stops scene p1 (ray_pair n (p1, p2)) \<and>
         (\<forall>i<n. \<not> castRay_stops scene p1 (ray_pair i (p1, p2)))"
    unfolding castRay_def by (rule castRay_loop_result)
next
  assume "\<exists>n. r = Inr (snd (ray_pair n (p1, p2))) \<and>
         castRay_stops scene p1 (ray_pair n (p1, p2)) \<and>
         (\<forall>i<n. \<not> castRay_stops scene p1 (ray_pair i (p1, p2)))"
  then show "castRay scene p1 p2 = Some r"
    unfolding castRay_def using castRay_loop_first_stop by blast
next
  assume "insideScene scene (hittingCell p1 p2) \<and> cellAt scene (hittingCell p1 p2) \<noteq> Inr (Some Empty)"
  then have "castRay_stops scene p1 (p1, p2)" by (simp add: castRay_stops_def)
  then show "castRay scene p1 p2 = Some (Inr p2)"
    unfolding castRay_def by (rule castRay_loop_stop)
next
  assume "\<not> insideScene scene (hittingCell p1 p2)"
  then have "\<not> castRay_stops scene p1 (p1, p2)"
    by (simp add: castRay_stops_def sqrDistanceTo_def sqrLength_def sub_def FAR_CLIPPING_PLANE_def)
  then show "castRay scene p1 p2 = castRay_loop scene p1 p2 (rayStep p1 p2)"
    unfolding castRay_def by (rule castRay_loop_step)
qed

theorem castRay_first_stop_witness:
  "\<not> insideScene [[Empty]] (hittingCell (Vector2 (1/2) (1/2)) (Vector2 (3/2) (1/2))) \<and>
   castRay [[Empty]] (Vector2 (1/2) (1/2)) (Vector2 (3/2) (1/2)) = Some (Inr (Vector2 12 (1/2))) \<and>
   castRay_loop [[Empty]] (Vector2 (1/2) (1/2)) (Vector2 (3/2) (1/2))
     (rayStep (Vector2 (1/2) (1/2)) (Vector2 (3/2) (1/2))) = Some (Inr (Vector2 12 (1/2))) \<and>
   (\<exists>n. Vector2 12 (1/2) = snd (ray_pair n (Vector2 (1/2) (1/2), Vector2 (3/2) (1/2))) \<and>
      castRay_stops [[Empty]] (Vector2 (1/2) (1/2)) (ray_pair n (Vector2 (1/2) (1/2), Vector2 (3/2) (1/2))))"
proof -
  have out: "\<not> insideScene [[Empty]] (hittingCell (Vector2 (1/2) (1/2)) (Vector2 (3/2) (1/2)))"
    by (simp add: insideScene_single hittingCell_def sub_def EPS_def)
  from castRay_first_stop[of "[[Empty]]" "Vector2 (1/2) (1/2)" "Vector2 (3/2) (1/2)"
      "Inr (Vector2 12 (1/2))"] castRay_single_east out
  show ?thesis by auto
qed

text \<open>
  The claim as stated fails where the cell of the tip is outside the scene: the ray
  is not stopped there, and the point returned is not that tip.
\<close>

theorem castRay_outside_continues:
  "\<not> insideScene [[Empty]] (hittingCell (Vector2 (1/2) (1/2)) (Vector2 (3/2) (1/2))) \<and>
   castRay [[Empty]] (Vector2 (1/2) (1/2)) (Vector2 (3/2) (1/2)) \<noteq> Some (Inr (Vector2 (3/2) (1/2))) \<and>
   castRay [[Empty]] (Vector2 (1/2) (1/2)) (Vector2 (3/2) (1/2)) = Some (Inr (Vector2 12 (1/2)))"
  by (simp add: castRay_single_east insideScene_single hittingCell_def sub_def EPS_def)

section \<open>The field of view\<close>

lemma cos_sin_unit: "cos t * cos t + sin t * sin t = (1::real)"
  using sin_cos_squared_add2[of t] by (simp add: power2_eq_square)

lemma fromAngle_unit: "sqrLength (fromAngle t) = 1"
  by (simp add: fromAngle_def sqrLength_def cos_sin_unit)

lemma half_FOV: "tan (FOV * (1 / 2)) = 1"
proof -
  have "FOV * (1 / 2) = pi / 4" by (simp add: FOV_def)
  then show ?thesis by (simp only: tan_45)
qed

lemma sqrLength_rot90_scale: "sqrLength (rot90 (scale v a)) = a\<^sup>2 * sqrLength v"
  by (simp add: sqrLength_def rot90_def scale_def power2_eq_square algebra_simps)

lemma norm_vec_rot90_scaled:
  assumes "0 < a"
  shows "norm_vec (rot90 (scale (fromAngle t) a)) = rot90 (fromAngle t)"
proof -
  have "length_vec (rot90 (scale (fromAngle t) a)) = a"
    using assms by (simp add: length_vec_def sqrLength_rot90_scale fromAngle_unit)
  then show ?thesis
    using assms by (simp add: norm_vec_def rot90_def scale_def)
qed

lemma sub_add_cancel_vec: "sub (add p v) p = v"
  by (simp add: sub_def add_def)

lemma fovRange_explicit:
  "fovRange pl =
     (sub (add (position pl) (scale (fromAngle (direction pl)) EPS))
          (scale (rot90 (fromAngle (direction pl))) EPS),
      add (add (position pl) (scale (fromAngle (direction pl)) EPS))
          (scale (rot90 (fromAngle (direction pl))) EPS))"
  unfolding fovRange_def Let_def NEAR_CLIPPING_PLANE_def sub_add_cancel_vec
    norm_vec_rot90_scaled[OF EPS_pos] half_FOV
  by simp


section \<open>Properties of the movement integrator\<close>

lemma fold_max_ge_init:
  "a \<le> fold (\<lambda>row x. max x (real (length row))) rows a"
proof (induction rows arbitrary: a)
  case Nil
  show ?case by simp
next
  case (Cons row rows)
  have "a \<le> max a (real (length row))" by simp
  also have "\<dots> \<le> fold (\<lambda>row x. max x (real (length row))) rows (max a (real (length row)))"
    by (rule Cons.IH)
  finally show ?case by simp
qed

lemma fold_max_ge_row:
  "row \<in> set rows \<Longrightarrow> real (length row) \<le> fold (\<lambda>row x. max x (real (length row))) rows a"
proof (induction rows arbitrary: a)
  case Nil
  then show ?case by simp
next
  case (Cons r rows)
  show ?case
  proof (cases "row = r")
    case True
    have "real (length row) \<le> max a (real (length row))" by simp
    also have "\<dots> \<le> fold (\<lambda>row x. max x (real (length row))) rows (max a (real (length row)))"
      by (rule fold_max_ge_init)
    finally show ?thesis using True by simp
  next
    case False
    with Cons.prems have "row \<in> set rows" by simp
    from Cons.IH[OF this] show ?thesis by simp
  qed
qed

lemma sceneSize_width_ge: "row \<in> set scene \<Longrightarrow> real (length row) \<le> vx (sceneSize scene)"
  by (simp add: sceneSize_def fold_max_ge_row)

lemma floor_index_bound:
  fixes y :: real
  shows "y < real n \<Longrightarrow> real_of_int \<lfloor>y\<rfloor> < real n"
  using of_int_floor_le[of y] by linarith

lemma nat_floor_less:
  assumes "0 \<le> k" "real_of_int k < real n"
  shows "nat k < n"
proof -
  from assms(2) have "real_of_int k < real_of_int (int n)" by simp
  then have "k < int n" by (simp only: of_int_less_iff)
  with assms(1) show ?thesis by linarith
qed

text \<open>The row of a position inside the scene exists: the lookup of its cell does not throw.\<close>

lemma cellAt_floorCell:
  assumes "insideScene scene t"
  shows "\<exists>c. cellAt scene (floorCell t) = Inr c"
  using assms
  by (auto simp: insideScene_def sceneSize_height cellAt_def at_index_def floorCell_def Let_def
      floor_index_bound)

text \<open>A position whose cell is a cell of the scene is inside the scene.\<close>

lemma cellAt_Some_inside:
  assumes "cellAt scene (floorCell t) = Inr (Some c)"
  shows "insideScene scene t"
proof -
  from assms obtain row where row: "at_index scene (vy (floorCell t)) = Some row"
    and c: "at_index row (vx (floorCell t)) = Some c"
    by (auto simp: cellAt_def split: option.splits)
  from row have y: "0 \<le> \<lfloor>vy t\<rfloor>" "nat \<lfloor>vy t\<rfloor> < length scene" "row = scene ! nat \<lfloor>vy t\<rfloor>"
    by (auto simp: at_index_def floorCell_def nat_floor_less split: if_splits)
  from c have x: "0 \<le> \<lfloor>vx t\<rfloor>" "nat \<lfloor>vx t\<rfloor> < length row"
    by (auto simp: at_index_def floorCell_def nat_floor_less split: if_splits)
  from y have "row \<in> set scene" by simp
  then have w: "real (length row) \<le> vx (sceneSize scene)" by (rule sceneSize_width_ge)
  have "vx t < real_of_int \<lfloor>vx t\<rfloor> + 1" by linarith
  also have "\<dots> \<le> real (length row)" using x by linarith
  finally have "vx t < vx (sceneSize scene)" using w by simp
  moreover have "vy t < real_of_int \<lfloor>vy t\<rfloor> + 1" by linarith
  then have "vy t < real (length scene)" using y by linarith
  moreover have "0 \<le> vx t" "0 \<le> vy t" using x(1) y(1) by simp_all
  ultimately show ?thesis by (simp add: insideScene_def sceneSize_height Let_def)
qed

lemma frame_eq:
  "frame scene g timestamp =
     (if \<not> insideScene scene (towards g timestamp) then
        Inr (g\<lparr>prevTimestamp := timestamp,
               player := \<lparr>position = towards g timestamp,
                          direction = direction (player g) + angularVelocity g * deltaTime g timestamp\<rparr>\<rparr>)
      else case cellAt scene (floorCell (towards g timestamp)) of
             Inl e \<Rightarrow> Inl e
           | Inr c \<Rightarrow>
               if c = Some Empty then
                 Inr (g\<lparr>prevTimestamp := timestamp,
                        player := \<lparr>position = towards g timestamp,
                                   direction = direction (player g) + angularVelocity g * deltaTime g timestamp\<rparr>\<rparr>)
               else
                 Inr (g\<lparr>prevTimestamp := timestamp,
                        player := \<lparr>position = position (player g),
                                   direction = direction (player g) + angularVelocity g * deltaTime g timestamp\<rparr>\<rparr>))"
  by (simp add: frame_def towards_def Let_def split: sum.splits)

text \<open>
  Claim C6. For every scene, state, flags and timestamp, \<open>frame\<close> returns a state
  (the lookup does not throw) whose position is the candidate \<open>towards\<close> exactly when
  \<open>towards\<close> is outside the scene or the cell of its floor is \<open>Empty\<close>, and is the old
  position otherwise; so a candidate whose floor cell is a cell of the scene other
  than \<open>Empty\<close> is never committed. The heading is updated in either case.
\<close>

theorem frame_commits:
  "\<exists>g'. frame scene g timestamp = Inr g' \<and>
     position (player g') =
       (if \<not> insideScene scene (towards g timestamp) \<or>
           cellAt scene (floorCell (towards g timestamp)) = Inr (Some Empty)
        then towards g timestamp else position (player g)) \<and>
     (\<forall>c. cellAt scene (floorCell (towards g timestamp)) = Inr (Some c) \<and> c \<noteq> Empty \<longrightarrow>
        position (player g') = position (player g)) \<and>
     direction (player g') = direction (player g) + angularVelocity g * deltaTime g timestamp"
proof (cases "insideScene scene (towards g timestamp)")
  case False
  then have "\<forall>c. cellAt scene (floorCell (towards g timestamp)) \<noteq> Inr (Some c)"
    using cellAt_Some_inside by blast
  with False show ?thesis by (simp add: frame_eq)
next
  case True
  from cellAt_floorCell[OF this] obtain c
    where "cellAt scene (floorCell (towards g timestamp)) = Inr c" by blast
  with True show ?thesis by (simp add: frame_eq)
qed

theorem frame_commits_witness:
  "cellAt [[Empty, Flat (Color 1 0 0 1)]]
     (floorCell (towards \<lparr>player = \<lparr>position = Vector2 (1/2) (1/2), direction = 0\<rparr>,
        movingForward = True, movingBackward = False, movingLeft = False, movingRight = False,
        turningLeft = False, turningRight = False, prevTimestamp = 0\<rparr> 200)) =
     Inr (Some (Flat (Color 1 0 0 1))) \<and>
   (\<exists>g'. frame [[Empty, Flat (Color 1 0 0 1)]]
       \<lparr>player = \<lparr>position = Vector2 (1/2) (1/2), direction = 0\<rparr>,
        movingForward = True, movingBackward = False, movingLeft = False, movingRight = False,
        turningLeft = False, turningRight = False, prevTimestamp = 0\<rparr> 200 = Inr g' \<and>
      position (player g') = Vector2 (1/2) (1/2) \<and> direction (player g') = 0)"
proof -
  let ?g = "\<lparr>player = \<lparr>position = Vector2 (1/2) (1/2), direction = 0\<rparr>,
        movingForward = True, movingBackward = False, movingLeft = False, movingRight = False,
        turningLeft = False, turningRight = False, prevTimestamp = 0\<rparr>"
  have t: "towards ?g 200 = Vector2 1 (1/2)"
    by (simp add: towards_def velocity_def deltaTime_def zero_def add_def scale_def fromAngle_def
        PLAYER_SPEED_def)
  have c: "cellAt [[Empty, Flat (Color 1 0 0 1)]] (floorCell (towards ?g 200)) =
      Inr (Some (Flat (Color 1 0 0 1)))"
    unfolding t by (simp add: cellAt_def at_index_def floorCell_def)
  have a: "angularVelocity ?g = 0" by (simp add: angularVelocity_def)
  from frame_commits[of "[[Empty, Flat (Color 1 0 0 1)]]" ?g 200] c a show ?thesis
    by auto
qed

text \<open>
  Claim C7. With the player at \<open>(2, 2)\<close> and heading 0, only the advance flag set, the
  speed \<open>PLAYER_SPEED\<close> of 2.5, one second between the timestamps, and the candidate
  outside the scene or over an \<open>Empty\<close> cell, one call of \<open>frame\<close> moves the player to
  \<open>(4.5, 2)\<close> and leaves the heading at 0.
\<close>

theorem frame_advance_east:
  assumes "position (player g) = Vector2 2 2" and "direction (player g) = 0"
    and "movingForward g" and "\<not> movingBackward g" and "\<not> movingLeft g" and "\<not> movingRight g"
    and "\<not> turningLeft g" and "\<not> turningRight g"
    and "timestamp - prevTimestamp g = 1000"
    and "\<not> insideScene scene (Vector2 (9/2) 2) \<or> cellAt scene (Vector2 4 2) = Inr (Some Empty)"
  shows "PLAYER_SPEED = 5 / 2 \<and> deltaTime g timestamp = 1 \<and>
         (\<exists>g'. frame scene g timestamp = Inr g' \<and>
            position (player g') = Vector2 (9/2) 2 \<and> direction (player g') = 0)"
proof -
  have dt: "deltaTime g timestamp = 1"
    using assms(9) by (simp add: deltaTime_def)
  have v: "velocity g = Vector2 (5/2) 0"
    using assms(2-6)
    by (simp add: velocity_def zero_def add_def scale_def fromAngle_def PLAYER_SPEED_def)
  have a: "angularVelocity g = 0"
    using assms(7,8) by (simp add: angularVelocity_def)
  have t: "towards g timestamp = Vector2 (9/2) 2"
    using assms(1) by (simp add: towards_def v dt add_def scale_def)
  have f: "floorCell (Vector2 (9/2) 2) = Vector2 4 2"
    by (simp add: floorCell_def)
  from cellAt_floorCell[of scene "Vector2 (9/2) 2"] assms(10)
  show ?thesis
    by (auto simp: frame_eq t f a dt assms(2) PLAYER_SPEED_def)
qed

theorem frame_advance_east_witness:
  "cellAt (replicate 3 (replicate 5 Empty)) (Vector2 4 2) = Inr (Some Empty) \<and>
   (\<exists>g'. frame (replicate 3 (replicate 5 Empty))
       \<lparr>player = \<lparr>position = Vector2 2 2, direction = 0\<rparr>,
        movingForward = True, movingBackward = False, movingLeft = False, movingRight = False,
        turningLeft = False, turningRight = False, prevTimestamp = 500\<rparr> 1500 = Inr g' \<and>
      position (player g') = Vector2 (9/2) 2 \<and> direction (player g') = 0)"
proof -
  have c: "cellAt (replicate 3 (replicate 5 Empty)) (Vector2 4 2) = Inr (Some Empty)"
    by (simp add: cellAt_def at_index_def)
  from frame_advance_east[of "\<lparr>player = \<lparr>position = Vector2 2 2, direction = 0\<rparr>,
        movingForward = True, movingBackward = False, movingLeft = False, movingRight = False,
        turningLeft = False, turningRight = False, prevTimestamp = 500\<rparr>" 1500
        "replicate 3 (replicate 5 Empty)"] c
  show ?thesis by simp
qed

section \<open>Properties of the wall renderer\<close>

text \<open>The tips of a ray lie on the ray, beyond its first target.\<close>

lemma ray_pair_on_ray:
  assumes "p1 \<noteq> p2"
  shows "\<exists>sa sb. 0 \<le> sa \<and> sa < sb \<and> 1 \<le> sb \<and>
           ray_pair n (p1, p2) = (add p1 (scale (sub p2 p1) sa), add p1 (scale (sub p2 p1) sb))"
proof (induction n)
  case 0
  have "p1 = add p1 (scale (sub p2 p1) 0)" "p2 = add p1 (scale (sub p2 p1) 1)"
    by (cases p1; cases p2; simp add: add_def scale_def sub_def)+
  then have "ray_pair 0 (p1, p2) = (add p1 (scale (sub p2 p1) 0), add p1 (scale (sub p2 p1) 1))"
    by (simp add: ray_pair_0)
  then show ?case by (intro exI[of _ 0] exI[of _ 1]) simp
next
  case (Suc n)
  let ?d = "sub p2 p1"
  from Suc obtain sa sb where s: "0 \<le> sa" "sa < sb" "1 \<le> sb"
    and rp: "ray_pair n (p1, p2) = (add p1 (scale ?d sa), add p1 (scale ?d sb))" by blast
  let ?a = "add p1 (scale ?d sa)" and ?b = "add p1 (scale ?d sb)"
  have d0: "vx ?d \<noteq> 0 \<or> vy ?d \<noteq> 0"
    using assms by (cases p1; cases p2) (auto simp: sub_def)
  have ab: "sub ?b ?a = scale ?d (sb - sa)"
    by (simp add: add_def scale_def sub_def algebra_simps)
  have ne: "?a \<noteq> ?b"
  proof
    assume "?a = ?b"
    then have "scale ?d (sb - sa) = Vector2 0 0"
      using ab by (simp add: sub_def)
    with d0 s(2) show False by (auto simp: scale_def)
  qed
  from rayStep_forward[OF ne] obtain t
    where t: "0 < t" "rayStep ?a ?b = add ?b (scale (sub ?b ?a) t)" by blast
  have r: "rayStep ?a ?b = add p1 (scale ?d (sb + (sb - sa) * t))"
    unfolding t(2) ab by (simp add: add_def scale_def algebra_simps)
  have "ray_pair (Suc n) (p1, p2) = (?b, rayStep ?a ?b)"
    by (simp add: ray_pair_def rp[unfolded ray_pair_def])
  moreover have "sb < sb + (sb - sa) * t" using s(2) t(1) by simp
  ultimately show ?case
    using s r by (intro exI[of _ sb] exI[of _ "sb + (sb - sa) * t"]) simp
qed

lemma castRay_on_ray:
  assumes "p1 \<noteq> p2" "castRay scene p1 p2 = Some (Inr p)"
  shows "\<exists>s\<ge>1. p = add p1 (scale (sub p2 p1) s)"
proof -
  from castRay_loop_result[OF assms(2)[unfolded castRay_def]] obtain n
    where "p = snd (ray_pair n (p1, p2))" by auto
  with ray_pair_on_ray[OF assms(1), of n] show ?thesis by auto
qed

text \<open>The target of a column is one near clipping distance ahead of the player.\<close>

lemma column_target_ahead:
  "dot (sub (lerp (fst (fovRange pl)) (snd (fovRange pl)) a) (position pl))
     (fromAngle (direction pl)) = EPS"
proof -
  define c s where "c = cos (direction pl)" and "s = sin (direction pl)"
  have u: "c * c + s * s = 1" by (simp add: c_def s_def cos_sin_unit)
  have h: "fromAngle (direction pl) = Vector2 c s" by (simp add: fromAngle_def c_def s_def)
  have e: "EPS * (c * c) + EPS * (s * s) = EPS"
    using arg_cong[OF u, of "\<lambda>z. EPS * z"] by (simp add: algebra_simps)
  show ?thesis
    unfolding fovRange_explicit h using e
    by (simp add: lerp_def dot_def sub_def add_def scale_def rot90_def algebra_simps)
qed

lemma dot_scale_left: "dot (scale v s) w = s * dot v w"
  by (simp add: dot_def scale_def algebra_simps)

lemma column_hit_ahead:
  assumes "castRay scene (position pl)
      (lerp (fst (fovRange pl)) (snd (fovRange pl)) a) = Some (Inr p)"
  shows "EPS \<le> dot (sub p (position pl)) (fromAngle (direction pl))"
proof -
  let ?t = "lerp (fst (fovRange pl)) (snd (fovRange pl)) a"
  have "position pl \<noteq> ?t"
  proof
    assume "position pl = ?t"
    then have "sub ?t (position pl) = Vector2 0 0" by (simp add: sub_def)
    with column_target_ahead[of pl a] EPS_pos show False by (simp add: dot_def)
  qed
  from castRay_on_ray[OF this assms] obtain s
    where s: "1 \<le> s" "p = add (position pl) (scale (sub ?t (position pl)) s)" by blast
  have "dot (sub p (position pl)) (fromAngle (direction pl)) = s * EPS"
    unfolding s(2) sub_add_cancel_vec dot_scale_left column_target_ahead ..
  moreover have "1 * EPS \<le> s * EPS"
    by (rule mult_right_mono) (use s(1) EPS_pos in simp_all)
  ultimately show ?thesis by simp
qed

text \<open>
  Claim C8. For every screen column whose ray ends at a point \<open>p\<close> with a cell of the
  scene other than \<open>Empty\<close>, a strip is drawn; the projected distance
  \<open>dot (p - position) viewDirection\<close> is positive, the height of the strip is the height
  of the canvas divided by it, and the top of the strip is half of what the strip
  leaves of the canvas. With a projected distance of 2 and a canvas 400 high the
  strip is 200 high and starts at 100.
\<close>

theorem renderColumn_strip:
  assumes "castRay scene (position pl)
      (lerp (fst (fovRange pl)) (snd (fovRange pl)) (real x / real SCREEN_WIDTH)) = Some (Inr p)"
    and "cellAt scene (hittingCell (position pl) p) = Inr (Some cell)"
    and "insideScene scene (hittingCell (position pl) p)"
    and "cell \<noteq> Empty"
  shows "\<exists>draw. renderColumn canvas pl scene x = Some (Inr (Some draw)) \<and>
     0 < dot (sub p (position pl)) (fromAngle (direction pl)) \<and>
     strip_height draw =
       canvas_height canvas / dot (sub p (position pl)) (fromAngle (direction pl)) \<and>
     strip_top draw = (canvas_height canvas - strip_height draw) / 2 \<and>
     (dot (sub p (position pl)) (fromAngle (direction pl)) = 2 \<and> canvas_height canvas = 400
        \<longrightarrow> strip_height draw = 200 \<and> strip_top draw = 100)"
proof -
  have pos: "0 < dot (sub p (position pl)) (fromAngle (direction pl))"
    using column_hit_ahead[OF assms(1)] EPS_pos by linarith
  have col: "renderColumn canvas pl scene x = Some (renderStrip canvas pl scene x p)"
    using assms(1) by (simp add: renderColumn_def case_prod_beta)
  show ?thesis
  proof (cases cell)
    case Empty
    with assms(4) show ?thesis by simp
  next
    case (Flat color)
    with assms(2,3) pos show ?thesis
      by (simp add: col renderStrip_def Let_def)
  next
    case (Texture img)
    with assms(2,3) pos show ?thesis
      by (simp add: col renderStrip_def Let_def)
  qed
qed

text \<open>
  The scenario of the claim: the player at \<open>(1, 1.5)\<close> looks east in a scene of 3 rows of
  4 cells whose only wall is at column 3 of row 1; the ray of the middle column
  ends on the wall at \<open>(3, 1.5)\<close>, at the projected distance 2.
\<close>

theorem renderColumn_strip_witness:
  "castRay [[Empty, Empty, Empty, Empty], [Empty, Empty, Empty, Flat (Color 1 0 0 1)],
       [Empty, Empty, Empty, Empty]] (Vector2 1 (3/2))
     (lerp (fst (fovRange \<lparr>position = Vector2 1 (3/2), direction = 0\<rparr>))
           (snd (fovRange \<lparr>position = Vector2 1 (3/2), direction = 0\<rparr>))
           (real 400 / real SCREEN_WIDTH)) = Some (Inr (Vector2 3 (3/2))) \<and>
   dot (sub (Vector2 3 (3/2)) (Vector2 1 (3/2))) (fromAngle 0) = 2 \<and>
   (\<exists>draw. renderColumn \<lparr>canvas_width = 800, canvas_height = 400\<rparr>
       \<lparr>position = Vector2 1 (3/2), direction = 0\<rparr>
       [[Empty, Empty, Empty, Empty], [Empty, Empty, Empty, Flat (Color 1 0 0 1)],
        [Empty, Empty, Empty, Empty]] 400 = Some (Inr (Some draw)) \<and>
      strip_height draw = 200 \<and> strip_top draw = 100)"
proof -
  let ?S = "[[Empty, Empty, Empty, Empty], [Empty, Empty, Empty, Flat (Color 1 0 0 1)],
       [Empty, Empty, Empty, Empty]]"
  let ?pl = "\<lparr>position = Vector2 1 (3/2), direction = 0\<rparr>"
  have size: "sceneSize ?S = Vector2 4 3"
    using MIN_VALUE_le_1 by (simp add: sceneSize_def max_def)
  have inside: "insideScene ?S q \<longleftrightarrow> 0 \<le> vx q \<and> vx q < 4 \<and> 0 \<le> vy q \<and> vy q < 3" for q
    by (auto simp: insideScene_def size)
  have target: "lerp (fst (fovRange ?pl)) (snd (fovRange ?pl)) (real 400 / real SCREEN_WIDTH) =
      Vector2 (1 + EPS) (3/2)"
    unfolding fovRange_explicit
    by (simp add: lerp_def add_def sub_def scale_def rot90_def fromAngle_def SCREEN_WIDTH_def)
  have ray: "castRay ?S (Vector2 1 (3/2)) (Vector2 (1 + EPS) (3/2)) = Some (Inr (Vector2 3 (3/2)))"
    unfolding castRay_def
    by (simp add: castRay_loop.simps inside hittingCell_def rayStep_def snap_def cellAt_def
        at_index_def sub_def sqrDistanceTo_def sqrLength_def EPS_def FAR_CLIPPING_PLANE_def Let_def)
  have cell: "hittingCell (Vector2 1 (3/2)) (Vector2 3 (3/2)) = Vector2 3 1"
    by (simp add: hittingCell_def sub_def EPS_def)
  have a1: "castRay ?S (position ?pl)
      (lerp (fst (fovRange ?pl)) (snd (fovRange ?pl)) (real 400 / real SCREEN_WIDTH)) =
      Some (Inr (Vector2 3 (3/2)))"
    unfolding target using ray by simp
  have a2: "cellAt ?S (hittingCell (position ?pl) (Vector2 3 (3/2))) = Inr (Some (Flat (Color 1 0 0 1)))"
    by (simp add: cell cellAt_def at_index_def)
  have a3: "insideScene ?S (hittingCell (position ?pl) (Vector2 3 (3/2)))"
    by (simp add: cell inside)
  have d: "dot (sub (Vector2 3 (3/2)) (Vector2 1 (3/2))) (fromAngle 0) = 2"
    by (simp add: dot_def sub_def fromAngle_def)
  from renderColumn_strip[OF a1 a2 a3, of "\<lparr>canvas_width = 800, canvas_height = 400\<rparr>"] d a1
  show ?thesis by auto
qed

section \<open>Further properties of the stepper and the caster\<close>

text \<open>
  The cell lookup of \<open>castRay\<close> never throws: the row index is an integer within the
  scene whenever the lookup is made.
\<close>

lemma castRay_no_TypeError: "castRay scene p1 p2 \<noteq> Some (Inl e)"
proof
  assume "castRay scene p1 p2 = Some (Inl e)"
  from castRay_loop_result[OF this[unfolded castRay_def]] show False by auto
qed

text \<open>
  A step of \<open>rayStep\<close> from a ray of two different points moves the tip forward on the
  line through them, by at least \<open>EPS\<close>.
\<close>

lemma rayStep_progress:
  assumes "p1 \<noteq> p2"
  shows "(\<exists>t. 0 < t \<and> rayStep p1 p2 = add p2 (scale (sub p2 p1) t)) \<and>
         EPS \<le> distanceTo p2 (rayStep p1 p2)"
  using rayStep_forward[OF assms] rayStep_moves_EPS[OF assms]
  by (auto simp: minStepSize_def)

lemma rayStep_progress_example:
  "Vector2 0 0 \<noteq> Vector2 (1/2) (1/4) \<and>
   rayStep (Vector2 0 0) (Vector2 (1/2) (1/4)) = Vector2 1 (1/2) \<and>
   EPS \<le> distanceTo (Vector2 (1/2) (1/4)) (rayStep (Vector2 0 0) (Vector2 (1/2) (1/4)))"
proof -
  have ne: "Vector2 0 0 \<noteq> Vector2 (1/2) (1/4)" by simp
  have "rayStep (Vector2 0 0) (Vector2 (1/2) (1/4)) = Vector2 1 (1/2)"
    by (simp add: rayStep_def sub_def snap_def EPS_def Let_def sqrDistanceTo_def sqrLength_def)
  with rayStep_progress[OF ne] ne show ?thesis by simp
qed

text \<open>
  The diagonal scenario: in a scene of 3 by 3 cells, empty but for a wall at
  \<open>(1, 1)\<close>, the ray from \<open>(0.5, 0.5)\<close> along the diagonal ends on the near corner
  \<open>(1, 1)\<close> of the wall, and the cell of that tip is the wall.
\<close>

lemma castRay_diagonal:
  "castRay [[Empty, Empty, Empty], [Empty, Flat (Color 1 0 0 1), Empty], [Empty, Empty, Empty]]
     (Vector2 (1/2) (1/2)) (Vector2 (3/4) (3/4)) = Some (Inr (Vector2 1 1)) \<and>
   hittingCell (Vector2 (1/2) (1/2)) (Vector2 1 1) = Vector2 1 1 \<and>
   cellAt [[Empty, Empty, Empty], [Empty, Flat (Color 1 0 0 1), Empty], [Empty, Empty, Empty]]
     (Vector2 1 1) = Inr (Some (Flat (Color 1 0 0 1)))"
proof -
  let ?S = "[[Empty, Empty, Empty], [Empty, Flat (Color 1 0 0 1), Empty], [Empty, Empty, Empty]]"
  have size: "sceneSize ?S = Vector2 3 3"
    using MIN_VALUE_le_1 by (simp add: sceneSize_def max_def)
  have inside: "insideScene ?S q \<longleftrightarrow> 0 \<le> vx q \<and> vx q < 3 \<and> 0 \<le> vy q \<and> vy q < 3" for q
    by (auto simp: insideScene_def size)
  have "castRay ?S (Vector2 (1/2) (1/2)) (Vector2 (3/4) (3/4)) = Some (Inr (Vector2 1 1))"
    unfolding castRay_def
    by (simp add: castRay_loop.simps inside hittingCell_def rayStep_def snap_def cellAt_def
        at_index_def sub_def sqrDistanceTo_def sqrLength_def EPS_def FAR_CLIPPING_PLANE_def Let_def)
  then show ?thesis
    by (simp add: hittingCell_def sub_def EPS_def cellAt_def at_index_def)
qed

end
